theory Spec2Isabelle
  imports Complex_Main
begin

section \<open>The marked cylindrical isolation engine\<close>

text \<open>
  A shallow embedding of \<^verbatim>\<open>marked_cylindrical_isolation_engine.pyx\<close>.

  Conventions of the embedding.
  \<^item> A \<^verbatim>\<open>float64\<close> is a \<^typ>\<open>real\<close>: arithmetic is exact, there is no rounding, no
    infinity and no NaN.
  \<^item> The C integers of the engine (\<^verbatim>\<open>int\<close>, \<^verbatim>\<open>int64\<close>) are \<^typ>\<open>int\<close>; offsets into the
    point arrays and the entries of a sort permutation are \<^typ>\<open>nat\<close>. The conversion of
    the predicate code to a C \<^verbatim>\<open>int\<close> (line 81) is modelled with its OverflowError; the grid
    sizes are taken to fit the C types they are assigned to.
  \<^item> An array is a list. The engine is compiled with \<^verbatim>\<open>boundscheck(False)\<close>, so a read
    outside an array has no defined behaviour in the source; the predicate
    \<open>valid_invocation\<close> below collects the conditions under which every read of the
    engine is in range, and the theorems about results assume it.
  \<^item> \<^verbatim>\<open>//\<close> and \<^verbatim>\<open>%\<close> on C integers follow Python (the default \<^verbatim>\<open>cdivision=False\<close>):
    they are \<open>div\<close> and \<open>mod\<close> on \<^typ>\<open>int\<close>, which round towards minus infinity.
  \<^item> A \<^verbatim>\<open>raise\<close> is the left summand of the result type. Whether the exception raised
    in the \<^verbatim>\<open>cdef\<close> function \<^verbatim>\<open>return_conditional_function\<close> reaches the caller of the
    engine depends on the Cython that compiles the file; the engine is modelled for
    both cases (\<open>cdef_raise\<close> below).
\<close>

subsection \<open>Errors and the marking functions\<close>

text \<open>\<open>ValueError\<close> carries its message. \<open>OverflowError\<close> is what the conversion of a Python
  integer to a C \<^verbatim>\<open>int\<close> raises when the integer does not fit. \<open>NullPointerCall\<close> is no
  exception: it stands for a call through a NULL function pointer, which has no defined
  behaviour (in practice the process crashes).\<close>

datatype error = ValueError string | OverflowError | NullPointerCall

text \<open>What the caller of a \<^verbatim>\<open>cdef\<close> function with a C return type and no \<^verbatim>\<open>except\<close> clause
  sees when the function raises. From Cython 3 on the exception propagates to the
  caller. Before Cython 3 the exception is printed and ignored, and the function returns
  the zero of its return type: for \<^verbatim>\<open>f_type\<close>, the NULL function pointer.\<close>

datatype cdef_raise = Propagates | Ignored

type_synonym f_type = "real list \<Rightarrow> real list \<Rightarrow> bool"

text \<open>Modelled from the spec: \<^verbatim>\<open>trivial\<close> is cimported from
  \<^verbatim>\<open>isolation_criteria_marking_functions\<close>, which is not among the sources. Spec 4.1,
  code 0: true regardless of inputs.\<close>

definition trivial :: f_type where
  "trivial w1 w2 = True"

text \<open>Modelled from the spec: \<^verbatim>\<open>gt_cond\<close> is cimported from
  \<^verbatim>\<open>isolation_criteria_marking_functions\<close>, which is not among the sources. Spec 4.1,
  code 1: \<^verbatim>\<open>w1[0] > w2[0]\<close>.\<close>

definition gt_cond :: f_type where
  "gt_cond w1 w2 = (w1 ! 0 > w2 ! 0)"

text \<open>Modelled from the spec: \<^verbatim>\<open>lt_cond\<close> is cimported from
  \<^verbatim>\<open>isolation_criteria_marking_functions\<close>, which is not among the sources. Spec 4.1,
  code 2: \<^verbatim>\<open>w1[0] < w2[0]\<close>.\<close>

definition lt_cond :: f_type where
  "lt_cond w1 w2 = (w1 ! 0 < w2 ! 0)"

text \<open>Modelled from the spec: \<^verbatim>\<open>eq_cond\<close> is cimported from
  \<^verbatim>\<open>isolation_criteria_marking_functions\<close>, which is not among the sources. Spec 4.1,
  code 3: \<^verbatim>\<open>w1[0] == w2[0]\<close>.\<close>

definition eq_cond :: f_type where
  "eq_cond w1 w2 = (w1 ! 0 = w2 ! 0)"

text \<open>Modelled from the spec: \<^verbatim>\<open>neq_cond\<close> is cimported from
  \<^verbatim>\<open>isolation_criteria_marking_functions\<close>, which is not among the sources. Spec 4.1,
  code 4: \<^verbatim>\<open>w1[0] != w2[0]\<close>.\<close>

definition neq_cond :: f_type where
  "neq_cond w1 w2 = (w1 ! 0 \<noteq> w2 ! 0)"

text \<open>Modelled from the spec: \<^verbatim>\<open>tg_cond\<close> is cimported from
  \<^verbatim>\<open>isolation_criteria_marking_functions\<close>, which is not among the sources. Spec 4.1,
  code 5 ("tg"): \<^verbatim>\<open>w1[0] >= w2[0]\<close>.\<close>

definition tg_cond :: f_type where
  "tg_cond w1 w2 = (w1 ! 0 \<ge> w2 ! 0)"

text \<open>Modelled from the spec: \<^verbatim>\<open>lg_cond\<close> is cimported from
  \<^verbatim>\<open>isolation_criteria_marking_functions\<close>, which is not among the sources. Spec 4.1,
  code 6 ("lg"): \<^verbatim>\<open>w1[0] <= w2[0]\<close>.\<close>

definition lg_cond :: f_type where
  "lg_cond w1 w2 = (w1 ! 0 \<le> w2 ! 0)"

text \<open>Line 81, \<^verbatim>\<open>cdef int weight_func_id = weight_func_idin\<close>: a Python integer converts to
  a C \<^verbatim>\<open>int\<close> (32 bits, signed) when it fits and raises OverflowError otherwise.\<close>

definition to_c_int :: "int \<Rightarrow> error + int" where
  "to_c_int n = (if - (2 ^ 31) \<le> n \<and> n < 2 ^ 31 then Inr n else Inl OverflowError)"

text \<open>Lines 260-280. The chain is \<^verbatim>\<open>if/elif\<close> followed by five separate \<^verbatim>\<open>if\<close>s, the
  last of which carries the \<^verbatim>\<open>else: raise\<close>; every branch before it returns, so the
  chain behaves as one cascade. \<open>Inl\<close> is the exception raised inside the function; what
  the engine, its caller, sees of it is modelled at the call (line 84) in
  \<open>marked_cylindrical_isolation_engine_compiled\<close>.\<close>

definition return_conditional_function :: "int \<Rightarrow> error + f_type" where
  "return_conditional_function cond_func_id =
     (if cond_func_id = 0 then Inr trivial
      else if cond_func_id = 1 then Inr gt_cond
      else if cond_func_id = 2 then Inr lt_cond
      else if cond_func_id = 3 then Inr eq_cond
      else if cond_func_id = 4 then Inr neq_cond
      else if cond_func_id = 5 then Inr tg_cond
      else if cond_func_id = 6 then Inr lg_cond
      else Inl (ValueError ''conditonal function does not exist!''))"

subsection \<open>The double mesh, as the engine reads it\<close>

text \<open>The attributes of \<^verbatim>\<open>RectangularDoubleMesh\<close> and of its two meshes that the engine
  reads. \<open>idx_sorted\<close> maps a sorted position to the original index of the point;
  \<open>cell_id_indices\<close> is the offset table: the points of cell \<open>c\<close> are the sorted positions
  from \<open>cell_id_indices ! c\<close> up to, not including, \<open>cell_id_indices ! (c + 1)\<close>.\<close>

record rectangular_mesh =
  idx_sorted :: "nat list"
  cell_id_indices :: "nat list"
  ncells :: int
  num_xdivs :: int
  num_ydivs :: int
  num_zdivs :: int
  xcell_size :: real
  ycell_size :: real
  zcell_size :: real

record rectangular_double_mesh =
  mesh1 :: rectangular_mesh
  mesh2 :: rectangular_mesh
  xperiod :: real
  yperiod :: real
  zperiod :: real
  PBCs :: int
  search_xlength :: real
  search_ylength :: real
  search_zlength :: real

subsection \<open>Array primitives\<close>

text \<open>numpy's \<^verbatim>\<open>a[idx]\<close> for an index array.\<close>

definition fancy :: "'a list \<Rightarrow> nat list \<Rightarrow> 'a list" where
  "fancy a idx = map (\<lambda>k. a ! k) idx"

text \<open>The view \<^verbatim>\<open>a[start:stop]\<close>.\<close>

definition slice :: "'a list \<Rightarrow> nat \<Rightarrow> nat \<Rightarrow> 'a list" where
  "slice a start stop = take (stop - start) (drop start a)"

text \<open>\<^verbatim>\<open>range(start, stop)\<close> over integers: \<open>stop\<close> is excluded.\<close>

definition py_range :: "int \<Rightarrow> int \<Rightarrow> int list" where
  "py_range start stop = [start..stop - 1]"

subsection \<open>Grid geometry (lines 120-139 and 166-208)\<close>

definition num_x2_covering_steps :: "rectangular_double_mesh \<Rightarrow> int" where
  "num_x2_covering_steps dm = \<lceil>search_xlength dm / xcell_size (mesh2 dm)\<rceil>"

definition num_y2_covering_steps :: "rectangular_double_mesh \<Rightarrow> int" where
  "num_y2_covering_steps dm = \<lceil>search_ylength dm / ycell_size (mesh2 dm)\<rceil>"

definition num_z2_covering_steps :: "rectangular_double_mesh \<Rightarrow> int" where
  "num_z2_covering_steps dm = \<lceil>search_zlength dm / zcell_size (mesh2 dm)\<rceil>"

definition num_x2_per_x1 :: "rectangular_double_mesh \<Rightarrow> int" where
  "num_x2_per_x1 dm = num_xdivs (mesh2 dm) div num_xdivs (mesh1 dm)"

definition num_y2_per_y1 :: "rectangular_double_mesh \<Rightarrow> int" where
  "num_y2_per_y1 dm = num_ydivs (mesh2 dm) div num_ydivs (mesh1 dm)"

definition num_z2_per_z1 :: "rectangular_double_mesh \<Rightarrow> int" where
  "num_z2_per_z1 dm = num_zdivs (mesh2 dm) div num_zdivs (mesh1 dm)"

text \<open>Lines 166-168: the lattice coordinate of a primary cell.\<close>

definition ix1_of :: "rectangular_double_mesh \<Rightarrow> int \<Rightarrow> int" where
  "ix1_of dm icell1 = icell1 div (num_ydivs (mesh1 dm) * num_zdivs (mesh1 dm))"

definition iy1_of :: "rectangular_double_mesh \<Rightarrow> int \<Rightarrow> int" where
  "iy1_of dm icell1 =
     (icell1 - ix1_of dm icell1 * num_ydivs (mesh1 dm) * num_zdivs (mesh1 dm))
       div num_zdivs (mesh1 dm)"

definition iz1_of :: "rectangular_double_mesh \<Rightarrow> int \<Rightarrow> int" where
  "iz1_of dm icell1 =
     icell1 - (ix1_of dm icell1 * num_ydivs (mesh1 dm) * num_zdivs (mesh1 dm))
       - (iy1_of dm icell1 * num_zdivs (mesh1 dm))"

text \<open>Lines 170-176.\<close>

definition leftmost_ix2 :: "rectangular_double_mesh \<Rightarrow> int \<Rightarrow> int" where
  "leftmost_ix2 dm icell1 = ix1_of dm icell1 * num_x2_per_x1 dm - num_x2_covering_steps dm"

definition leftmost_iy2 :: "rectangular_double_mesh \<Rightarrow> int \<Rightarrow> int" where
  "leftmost_iy2 dm icell1 = iy1_of dm icell1 * num_y2_per_y1 dm - num_y2_covering_steps dm"

definition leftmost_iz2 :: "rectangular_double_mesh \<Rightarrow> int \<Rightarrow> int" where
  "leftmost_iz2 dm icell1 = iz1_of dm icell1 * num_z2_per_z1 dm - num_z2_covering_steps dm"

definition rightmost_ix2 :: "rectangular_double_mesh \<Rightarrow> int \<Rightarrow> int" where
  "rightmost_ix2 dm icell1 =
     (ix1_of dm icell1 + 1) * num_x2_per_x1 dm + num_x2_covering_steps dm"

definition rightmost_iy2 :: "rectangular_double_mesh \<Rightarrow> int \<Rightarrow> int" where
  "rightmost_iy2 dm icell1 =
     (iy1_of dm icell1 + 1) * num_y2_per_y1 dm + num_y2_covering_steps dm"

definition rightmost_iz2 :: "rectangular_double_mesh \<Rightarrow> int \<Rightarrow> int" where
  "rightmost_iz2 dm icell1 =
     (iz1_of dm icell1 + 1) * num_z2_per_z1 dm + num_z2_covering_steps dm"

text \<open>Lines 179-184 (and 189-194, 199-204): the shift of one axis, from the raw cell
  coordinate, the division count, the period and the periodicity flag.\<close>

definition axis_shift :: "int \<Rightarrow> int \<Rightarrow> real \<Rightarrow> int \<Rightarrow> real" where
  "axis_shift nonPBC_i2 num_2divs period pbcs =
     (if nonPBC_i2 < 0 then - period * of_int pbcs
      else if nonPBC_i2 \<ge> num_2divs then period * of_int pbcs
      else 0)"

text \<open>What the body of the innermost cell loop has in hand: the raw coordinates of the
  secondary cell, the three shifts, and the flattened index of the cell it looks up
  (lines 186, 196, 206, 208).\<close>

record cell2_visit =
  nonPBC_ix2 :: int
  nonPBC_iy2 :: int
  nonPBC_iz2 :: int
  x2shift :: real
  y2shift :: real
  z2shift :: real
  icell2 :: int

definition visit :: "rectangular_double_mesh \<Rightarrow> int \<Rightarrow> int \<Rightarrow> int \<Rightarrow> cell2_visit" where
  "visit dm nx ny nz =
     \<lparr> nonPBC_ix2 = nx, nonPBC_iy2 = ny, nonPBC_iz2 = nz,
       x2shift = axis_shift nx (num_xdivs (mesh2 dm)) (xperiod dm) (PBCs dm),
       y2shift = axis_shift ny (num_ydivs (mesh2 dm)) (yperiod dm) (PBCs dm),
       z2shift = axis_shift nz (num_zdivs (mesh2 dm)) (zperiod dm) (PBCs dm),
       icell2 = (nx mod num_xdivs (mesh2 dm)) * (num_ydivs (mesh2 dm) * num_zdivs (mesh2 dm))
                + (ny mod num_ydivs (mesh2 dm)) * num_zdivs (mesh2 dm)
                + (nz mod num_zdivs (mesh2 dm)) \<rparr>"

text \<open>Lines 178-208: the three nested loops over the secondary cells around primary cell
  \<open>icell1\<close>, with the loop body as a parameter acting on the state the loops thread.\<close>

definition cell2_loops ::
  "rectangular_double_mesh \<Rightarrow> int \<Rightarrow> (cell2_visit \<Rightarrow> 's \<Rightarrow> 's) \<Rightarrow> 's \<Rightarrow> 's" where
  "cell2_loops dm icell1 body s0 =
     foldl (\<lambda>sx nx.
       foldl (\<lambda>sy ny.
         foldl (\<lambda>sz nz. body (visit dm nx ny nz) sz) sy
           (py_range (leftmost_iz2 dm icell1) (rightmost_iz2 dm icell1))) sx
         (py_range (leftmost_iy2 dm icell1) (rightmost_iy2 dm icell1))) s0
       (py_range (leftmost_ix2 dm icell1) (rightmost_ix2 dm icell1))"

text \<open>The secondary cells the loops visit, in order: the loops run with a body that only
  appends what it is handed.\<close>

definition visited :: "rectangular_double_mesh \<Rightarrow> int \<Rightarrow> cell2_visit list" where
  "visited dm icell1 = cell2_loops dm icell1 (\<lambda>v tr. tr @ [v]) []"

subsection \<open>The pairwise scanner (lines 209-243)\<close>

text \<open>Lines 233-241: the test on one pair. \<^verbatim>\<open>weight\<close> is a \<^verbatim>\<open>float64\<close> that receives the
  \<^verbatim>\<open>bint\<close> the marking function returns.\<close>

definition pair_is_neighbor ::
  "f_type \<Rightarrow> real \<Rightarrow> real \<Rightarrow> real \<Rightarrow> real \<Rightarrow> real \<Rightarrow> real list
     \<Rightarrow> real \<Rightarrow> real \<Rightarrow> real \<Rightarrow> real list \<Rightarrow> bool" where
  "pair_is_neighbor wfn x1tmp y1tmp z1tmp rp_max_squaredtmp pi_max_squaredtmp w1
       x2j y2j z2j w2 =
     (let dx = x1tmp - x2j;
          dy = y1tmp - y2j;
          dz = z1tmp - z2j;
          dxy_sq = dx * dx + dy * dy;
          dz_sq = dz * dz;
          weight = (if wfn w1 w2 then 1 else 0 :: real)
      in dxy_sq < rp_max_squaredtmp \<and> dz_sq < pi_max_squaredtmp \<and> weight = 1
           \<and> dz_sq + dxy_sq > 0)"

text \<open>Lines 231-243: the loop over the points of the secondary cell, for one primary point
  at sorted position \<open>k\<close>. \<open>test j\<close> is the condition of line 241 for secondary point \<open>j\<close>;
  on the first \<open>j\<close> that passes, the flag is set and the loop is left.\<close>

fun j_loop :: "(nat \<Rightarrow> bool) \<Rightarrow> nat \<Rightarrow> nat list \<Rightarrow> int list \<Rightarrow> int list" where
  "j_loop test k [] has_neighbor = has_neighbor"
| "j_loop test k (j # js) has_neighbor =
     (if test j then has_neighbor[k := 1] else j_loop test k js has_neighbor)"

text \<open>The arrays of the engine after the sort (lines 84-109).\<close>

record locals =
  wfunc :: f_type
  rp_max_squared :: "real list"
  pi_max_squared :: "real list"
  x1 :: "real list"
  y1 :: "real list"
  z1 :: "real list"
  x2 :: "real list"
  y2 :: "real list"
  z2 :: "real list"
  weights1 :: "real list list"
  weights2 :: "real list list"

text \<open>Lines 224-243: the body of the loop over the points of the primary cell.\<close>

definition i_body ::
  "locals \<Rightarrow> nat \<Rightarrow> nat \<Rightarrow> nat \<Rightarrow> nat \<Rightarrow> cell2_visit \<Rightarrow> nat \<Rightarrow> int list \<Rightarrow> int list" where
  "i_body L ifirst1 ilast1 ifirst2 ilast2 v i has_neighbor =
     (let x_icell1 = slice (x1 L) ifirst1 ilast1;
          y_icell1 = slice (y1 L) ifirst1 ilast1;
          z_icell1 = slice (z1 L) ifirst1 ilast1;
          w_icell1 = slice (weights1 L) ifirst1 ilast1;
          x_icell2 = slice (x2 L) ifirst2 ilast2;
          y_icell2 = slice (y2 L) ifirst2 ilast2;
          z_icell2 = slice (z2 L) ifirst2 ilast2;
          w_icell2 = slice (weights2 L) ifirst2 ilast2;
          Nj = ilast2 - ifirst2;
          x1tmp = x_icell1 ! i - x2shift v;
          y1tmp = y_icell1 ! i - y2shift v;
          z1tmp = z_icell1 ! i - z2shift v;
          rp_max_squaredtmp = rp_max_squared L ! (ifirst1 + i);
          pi_max_squaredtmp = pi_max_squared L ! (ifirst1 + i)
      in j_loop
           (\<lambda>j. pair_is_neighbor (wfunc L) x1tmp y1tmp z1tmp
                  rp_max_squaredtmp pi_max_squaredtmp (w_icell1 ! i)
                  (x_icell2 ! j) (y_icell2 ! j) (z_icell2 ! j) (w_icell2 ! j))
           (ifirst1 + i) [0..<Nj] has_neighbor)"

text \<open>Lines 208-243: the work on one pair of cells.\<close>

definition cell_pair_scan ::
  "locals \<Rightarrow> rectangular_double_mesh \<Rightarrow> nat \<Rightarrow> nat \<Rightarrow> cell2_visit \<Rightarrow> int list \<Rightarrow> int list" where
  "cell_pair_scan L dm ifirst1 ilast1 v has_neighbor =
     (let ifirst2 = cell_id_indices (mesh2 dm) ! nat (icell2 v);
          ilast2 = cell_id_indices (mesh2 dm) ! nat (icell2 v + 1);
          Ni = ilast1 - ifirst1;
          Nj = ilast2 - ifirst2
      in if Nj > 0
         then foldl (\<lambda>h i. i_body L ifirst1 ilast1 ifirst2 ilast2 v i h) has_neighbor [0..<Ni]
         else has_neighbor)"

text \<open>Lines 152-243: the body of the loop over the primary cells.\<close>

definition cell1_body ::
  "locals \<Rightarrow> rectangular_double_mesh \<Rightarrow> int \<Rightarrow> int list \<Rightarrow> int list" where
  "cell1_body L dm icell1 has_neighbor =
     (let ifirst1 = cell_id_indices (mesh1 dm) ! nat icell1;
          ilast1 = cell_id_indices (mesh1 dm) ! nat (icell1 + 1);
          Ni = ilast1 - ifirst1
      in if Ni > 0
         then cell2_loops dm icell1 (cell_pair_scan L dm ifirst1 ilast1) has_neighbor
         else has_neighbor)"

text \<open>Line 150.\<close>

definition cell1_loop ::
  "locals \<Rightarrow> rectangular_double_mesh \<Rightarrow> int \<Rightarrow> int \<Rightarrow> int list \<Rightarrow> int list" where
  "cell1_loop L dm first_cell1_element last_cell1_element has_neighbor =
     foldl (\<lambda>h icell1. cell1_body L dm icell1 h) has_neighbor
       (py_range first_cell1_element last_cell1_element)"

subsection \<open>The engine (lines 81-257)\<close>

text \<open>Lines 86-109: squaring the radii and sorting every array by cell.\<close>

definition engine_locals ::
  "f_type \<Rightarrow> rectangular_double_mesh \<Rightarrow> real list \<Rightarrow> real list \<Rightarrow> real list
     \<Rightarrow> real list \<Rightarrow> real list \<Rightarrow> real list \<Rightarrow> real list list \<Rightarrow> real list list
     \<Rightarrow> real list \<Rightarrow> real list \<Rightarrow> locals" where
  "engine_locals wfn dm x1in y1in z1in x2in y2in z2in weights1in weights2in rp_max pi_max =
     \<lparr> wfunc = wfn,
       rp_max_squared = fancy (map (\<lambda>r. r * r) rp_max) (idx_sorted (mesh1 dm)),
       pi_max_squared = fancy (map (\<lambda>r. r * r) pi_max) (idx_sorted (mesh1 dm)),
       x1 = fancy x1in (idx_sorted (mesh1 dm)),
       y1 = fancy y1in (idx_sorted (mesh1 dm)),
       z1 = fancy z1in (idx_sorted (mesh1 dm)),
       x2 = fancy x2in (idx_sorted (mesh2 dm)),
       y2 = fancy y2in (idx_sorted (mesh2 dm)),
       z2 = fancy z2in (idx_sorted (mesh2 dm)),
       weights1 = fancy weights1in (idx_sorted (mesh1 dm)),
       weights2 = fancy weights2in (idx_sorted (mesh2 dm)) \<rparr>"

text \<open>The array \<^verbatim>\<open>has_neighbor\<close> as it stands at line 245, in sorted order.\<close>

definition scan_has_neighbor ::
  "f_type \<Rightarrow> rectangular_double_mesh \<Rightarrow> real list \<Rightarrow> real list \<Rightarrow> real list
     \<Rightarrow> real list \<Rightarrow> real list \<Rightarrow> real list \<Rightarrow> real list list \<Rightarrow> real list list
     \<Rightarrow> real list \<Rightarrow> real list \<Rightarrow> int \<times> int \<Rightarrow> int list" where
  "scan_has_neighbor wfn dm x1in y1in z1in x2in y2in z2in weights1in weights2in
       rp_max pi_max cell1_tuple =
     cell1_loop
       (engine_locals wfn dm x1in y1in z1in x2in y2in z2in weights1in weights2in rp_max pi_max)
       dm (fst cell1_tuple) (snd cell1_tuple) (replicate (length x1in) 0)"

text \<open>Lines 246-257. \<open>is_isolated\<close> is first the boolean mask, then the entries of
  \<open>idx_sorted\<close> the mask selects; the result starts as zeros and gets a one at each
  selected index.\<close>

definition result_assembly :: "nat list \<Rightarrow> int list \<Rightarrow> nat \<Rightarrow> real list" where
  "result_assembly idx has_neighbor Npts1 =
     (let is_isolated_mask = map (\<lambda>h. h = 0) has_neighbor;
          is_isolated = map fst (filter snd (zip idx is_isolated_mask));
          new_is_isolated = replicate Npts1 0
      in foldl (\<lambda>a k. a[k := 1]) new_is_isolated is_isolated)"

text \<open>Whether the scan of the work range examines any pair of points: some primary cell
  of the range holds a point (line 164) and some secondary cell of its window holds a
  point (line 222). The marking function is called for every pair examined (line 239).\<close>

definition examines_a_pair :: "rectangular_double_mesh \<Rightarrow> int \<times> int \<Rightarrow> bool" where
  "examines_a_pair dm cell1_tuple =
     list_ex (\<lambda>icell1.
        cell_id_indices (mesh1 dm) ! nat icell1 < cell_id_indices (mesh1 dm) ! nat (icell1 + 1)
        \<and> list_ex (\<lambda>v. cell_id_indices (mesh2 dm) ! nat (icell2 v)
                          < cell_id_indices (mesh2 dm) ! nat (icell2 v + 1))
             (visited dm icell1))
       (py_range (fst cell1_tuple) (snd cell1_tuple))"

text \<open>The engine, lines 81-257, as compiled under either treatment of the exception of
  \<^verbatim>\<open>return_conditional_function\<close>. The conversion of line 81 comes first, the selection of
  line 84 second. When the selection raises and the exception is ignored, \<^verbatim>\<open>wfunc\<close> is the
  NULL pointer and the engine goes on: the first pair the scan examines calls it; when
  the scan examines no pair, every flag stays 0 and the result is assembled from that.\<close>

definition marked_cylindrical_isolation_engine_compiled ::
  "cdef_raise \<Rightarrow> rectangular_double_mesh \<Rightarrow> real list \<Rightarrow> real list \<Rightarrow> real list
     \<Rightarrow> real list \<Rightarrow> real list \<Rightarrow> real list \<Rightarrow> real list list \<Rightarrow> real list list
     \<Rightarrow> int \<Rightarrow> real list \<Rightarrow> real list \<Rightarrow> int \<times> int \<Rightarrow> error + real list" where
  "marked_cylindrical_isolation_engine_compiled raises dm x1in y1in z1in x2in y2in z2in
       weights1in weights2in weight_func_idin rp_max pi_max cell1_tuple =
     (case to_c_int weight_func_idin of
        Inl e \<Rightarrow> Inl e
      | Inr weight_func_id \<Rightarrow>
          (case return_conditional_function weight_func_id of
             Inr wfn \<Rightarrow>
               Inr (result_assembly (idx_sorted (mesh1 dm))
                      (scan_has_neighbor wfn dm x1in y1in z1in x2in y2in z2in
                         weights1in weights2in rp_max pi_max cell1_tuple)
                      (length x1in))
           | Inl e \<Rightarrow>
               (case raises of
                  Propagates \<Rightarrow> Inl e
                | Ignored \<Rightarrow>
                    if examines_a_pair dm cell1_tuple then Inl NullPointerCall
                    else Inr (result_assembly (idx_sorted (mesh1 dm))
                                (replicate (length x1in) 0) (length x1in)))))"

text \<open>The engine where the exception of the selection propagates. For a recognised
  predicate code the treatment of the exception makes no difference
  (\<open>recognised_code_any_compilation\<close> below).\<close>

definition marked_cylindrical_isolation_engine ::
  "rectangular_double_mesh \<Rightarrow> real list \<Rightarrow> real list \<Rightarrow> real list
     \<Rightarrow> real list \<Rightarrow> real list \<Rightarrow> real list \<Rightarrow> real list list \<Rightarrow> real list list
     \<Rightarrow> int \<Rightarrow> real list \<Rightarrow> real list \<Rightarrow> int \<times> int \<Rightarrow> error + real list" where
  "marked_cylindrical_isolation_engine dm x1in y1in z1in x2in y2in z2in
       weights1in weights2in weight_func_idin rp_max pi_max cell1_tuple =
     marked_cylindrical_isolation_engine_compiled Propagates dm x1in y1in z1in x2in y2in z2in
       weights1in weights2in weight_func_idin rp_max pi_max cell1_tuple"

subsection \<open>Valid invocations\<close>

text \<open>The invariants of the data model (spec section 3) for one mesh over \<open>npts\<close> points:
  positive division counts, an offset table of \<open>ncells + 1\<close> non-decreasing entries from
  \<open>0\<close> to \<open>npts\<close>, and a sort order that is a permutation of the positions below \<open>npts\<close>.\<close>

definition valid_mesh :: "rectangular_mesh \<Rightarrow> nat \<Rightarrow> bool" where
  "valid_mesh m npts \<longleftrightarrow>
     0 < num_xdivs m \<and> 0 < num_ydivs m \<and> 0 < num_zdivs m \<and>
     0 < xcell_size m \<and> 0 < ycell_size m \<and> 0 < zcell_size m \<and>
     ncells m = num_xdivs m * num_ydivs m * num_zdivs m \<and>
     length (cell_id_indices m) = nat (ncells m) + 1 \<and>
     sorted (cell_id_indices m) \<and>
     cell_id_indices m ! 0 = 0 \<and>
     cell_id_indices m ! nat (ncells m) = npts \<and>
     length (idx_sorted m) = npts \<and>
     distinct (idx_sorted m) \<and>
     list_all (\<lambda>k. k < npts) (idx_sorted m)"

text \<open>The preconditions of the call (spec section 6), the divisibility of the grid
  resolutions left out: parallel arrays of equal lengths, weight vectors of width at
  least one, two valid meshes, a recognised predicate code and a work range inside
  the primary cells.\<close>

definition valid_invocation ::
  "rectangular_double_mesh \<Rightarrow> real list \<Rightarrow> real list \<Rightarrow> real list
     \<Rightarrow> real list \<Rightarrow> real list \<Rightarrow> real list \<Rightarrow> real list list \<Rightarrow> real list list
     \<Rightarrow> int \<Rightarrow> real list \<Rightarrow> real list \<Rightarrow> int \<times> int \<Rightarrow> bool" where
  "valid_invocation dm x1in y1in z1in x2in y2in z2in weights1in weights2in
       weight_func_idin rp_max pi_max cell1_tuple \<longleftrightarrow>
     length y1in = length x1in \<and> length z1in = length x1in \<and>
     length weights1in = length x1in \<and>
     length rp_max = length x1in \<and> length pi_max = length x1in \<and>
     length y2in = length x2in \<and> length z2in = length x2in \<and>
     length weights2in = length x2in \<and>
     list_all (\<lambda>w. w \<noteq> []) weights1in \<and> list_all (\<lambda>w. w \<noteq> []) weights2in \<and>
     valid_mesh (mesh1 dm) (length x1in) \<and> valid_mesh (mesh2 dm) (length x2in) \<and>
     0 \<le> weight_func_idin \<and> weight_func_idin \<le> 6 \<and>
     0 \<le> fst cell1_tuple \<and> snd cell1_tuple \<le> ncells (mesh1 dm)"

subsection \<open>Specification of the scan\<close>

text \<open>A specification device: \<open>f\<close> keeps the length of the flag array, writes a one at
  every position in \<open>S\<close> and leaves every other position alone.\<close>

definition sets_flags :: "(int list \<Rightarrow> int list) \<Rightarrow> nat set \<Rightarrow> bool" where
  "sets_flags f S \<longleftrightarrow>
     (\<forall>h. length (f h) = length h \<and>
          (\<forall>p<length h. f h ! p = (if p \<in> S then 1 else h ! p)))"

text \<open>Some point \<open>q\<close> of the sorted secondary arrays, in the positions from \<open>ifirst2\<close> up to
  \<open>ilast2\<close>, passes the test of line 241 against the primary point at sorted position
  \<open>p\<close>, shifted as visit \<open>v\<close> says.\<close>

definition neighbor_in_cell2 :: "locals \<Rightarrow> nat \<Rightarrow> nat \<Rightarrow> cell2_visit \<Rightarrow> nat \<Rightarrow> bool" where
  "neighbor_in_cell2 L ifirst2 ilast2 v p \<longleftrightarrow>
     (\<exists>q. ifirst2 \<le> q \<and> q < ilast2 \<and>
        pair_is_neighbor (wfunc L)
          (x1 L ! p - x2shift v) (y1 L ! p - y2shift v) (z1 L ! p - z2shift v)
          (rp_max_squared L ! p) (pi_max_squared L ! p) (weights1 L ! p)
          (x2 L ! q) (y2 L ! q) (z2 L ! q) (weights2 L ! q))"

text \<open>The sorted positions that the work on primary cell \<open>icell1\<close> flags.\<close>

definition cell1_marks :: "locals \<Rightarrow> rectangular_double_mesh \<Rightarrow> int \<Rightarrow> nat set" where
  "cell1_marks L dm icell1 =
     {p. cell_id_indices (mesh1 dm) ! nat icell1 \<le> p \<and>
         p < cell_id_indices (mesh1 dm) ! nat (icell1 + 1) \<and>
         (\<exists>v \<in> set (visited dm icell1).
            neighbor_in_cell2 L (cell_id_indices (mesh2 dm) ! nat (icell2 v))
              (cell_id_indices (mesh2 dm) ! nat (icell2 v + 1)) v p)}"

text \<open>The sorted arrays hold \<open>n1\<close> primary and \<open>n2\<close> secondary points.\<close>

definition sized :: "locals \<Rightarrow> nat \<Rightarrow> nat \<Rightarrow> bool" where
  "sized L n1 n2 \<longleftrightarrow>
     length (x1 L) = n1 \<and> length (y1 L) = n1 \<and> length (z1 L) = n1 \<and>
     length (weights1 L) = n1 \<and>
     length (x2 L) = n2 \<and> length (y2 L) = n2 \<and> length (z2 L) = n2 \<and>
     length (weights2 L) = n2"

text \<open>The visits of the three nested loops, written as one list.\<close>

definition visits :: "rectangular_double_mesh \<Rightarrow> int \<Rightarrow> cell2_visit list" where
  "visits dm icell1 =
     concat (map (\<lambda>nx.
       concat (map (\<lambda>ny.
         map (\<lambda>nz. visit dm nx ny nz)
           (py_range (leftmost_iz2 dm icell1) (rightmost_iz2 dm icell1)))
         (py_range (leftmost_iy2 dm icell1) (rightmost_iy2 dm icell1))))
       (py_range (leftmost_ix2 dm icell1) (rightmost_ix2 dm icell1)))"

subsection \<open>Example invocations\<close>

text \<open>A box of period 10 on every axis. The primary mesh has two cells along x; three
  primary points at x = 6, 1 and 9.5 and three secondary points at x = 0.3, 7 and 3, all
  at y = z = 5; every search radius and half-length is 1.\<close>

definition ex_mesh1 :: rectangular_mesh where
  "ex_mesh1 = \<lparr> idx_sorted = [1, 0, 2], cell_id_indices = [0, 1, 3], ncells = 2,
       num_xdivs = 2, num_ydivs = 1, num_zdivs = 1,
       xcell_size = 5, ycell_size = 10, zcell_size = 10 \<rparr>"

definition ex_mesh2 :: rectangular_mesh where
  "ex_mesh2 = \<lparr> idx_sorted = [0, 2, 1], cell_id_indices = [0, 2, 3], ncells = 2,
       num_xdivs = 2, num_ydivs = 1, num_zdivs = 1,
       xcell_size = 5, ycell_size = 10, zcell_size = 10 \<rparr>"

definition ex_dm :: "int \<Rightarrow> rectangular_double_mesh" where
  "ex_dm pbcs = \<lparr> mesh1 = ex_mesh1, mesh2 = ex_mesh2,
       xperiod = 10, yperiod = 10, zperiod = 10, PBCs = pbcs,
       search_xlength = 1, search_ylength = 1, search_zlength = 1 \<rparr>"

text \<open>The engine on the example, by periodicity flag, predicate code and work range.\<close>

definition ex_engine :: "int \<Rightarrow> int \<Rightarrow> int \<times> int \<Rightarrow> error + real list" where
  "ex_engine pbcs code cell1_tuple =
     marked_cylindrical_isolation_engine (ex_dm pbcs)
       [6, 1, 19 / 2] [5, 5, 5] [5, 5, 5] [3 / 10, 7, 3] [5, 5, 5] [5, 5, 5]
       [[1], [1], [1]] [[1], [1], [1]] code [1, 1, 1] [1, 1, 1] cell1_tuple"

text \<open>Validity of the example invocation, and its flags after the scan.\<close>

definition ex_valid :: "int \<Rightarrow> int \<Rightarrow> int \<times> int \<Rightarrow> bool" where
  "ex_valid pbcs code cell1_tuple =
     valid_invocation (ex_dm pbcs)
       [6, 1, 19 / 2] [5, 5, 5] [5, 5, 5] [3 / 10, 7, 3] [5, 5, 5] [5, 5, 5]
       [[1], [1], [1]] [[1], [1], [1]] code [1, 1, 1] [1, 1, 1] cell1_tuple"

definition ex_scan :: "f_type \<Rightarrow> int \<Rightarrow> int \<times> int \<Rightarrow> int list" where
  "ex_scan wfn pbcs cell1_tuple =
     scan_has_neighbor wfn (ex_dm pbcs)
       [6, 1, 19 / 2] [5, 5, 5] [5, 5, 5] [3 / 10, 7, 3] [5, 5, 5] [5, 5, 5]
       [[1], [1], [1]] [[1], [1], [1]] [1, 1, 1] [1, 1, 1] cell1_tuple"

text \<open>The sorted arrays of the example, with the always-true marking function.\<close>

definition ex_locals :: locals where
  "ex_locals =
     engine_locals trivial (ex_dm 1)
       [6, 1, 19 / 2] [5, 5, 5] [5, 5, 5] [3 / 10, 7, 3] [5, 5, 5] [5, 5, 5]
       [[1], [1], [1]] [[1], [1], [1]] [1, 1, 1] [1, 1, 1]"

text \<open>The example with a secondary mesh of three cells along x against the two of the
  primary mesh: three is not a multiple of two.\<close>

definition ex_mesh2_thirds :: rectangular_mesh where
  "ex_mesh2_thirds = \<lparr> idx_sorted = [0, 2, 1], cell_id_indices = [0, 2, 2, 3], ncells = 3,
       num_xdivs = 3, num_ydivs = 1, num_zdivs = 1,
       xcell_size = 10 / 3, ycell_size = 10, zcell_size = 10 \<rparr>"

definition ex_dm_thirds :: rectangular_double_mesh where
  "ex_dm_thirds = \<lparr> mesh1 = ex_mesh1, mesh2 = ex_mesh2_thirds,
       xperiod = 10, yperiod = 10, zperiod = 10, PBCs = 1,
       search_xlength = 1, search_ylength = 1, search_zlength = 1 \<rparr>"

section \<open>Lemmas about the loops\<close>

subsection \<open>Flag arrays\<close>

text \<open>\<open>sets_flags f S\<close> composes along a loop: the positions a loop flags are the union of
  those its iterations flag.\<close>

lemma sets_flags_I:
  "(\<And>h. length (f h) = length h) \<Longrightarrow>
   (\<And>h p. p < length h \<Longrightarrow> f h ! p = (if p \<in> S then 1 else h ! p)) \<Longrightarrow> sets_flags f S"
  by (simp add: sets_flags_def)

lemma sets_flags_length: "sets_flags f S \<Longrightarrow> length (f h) = length h"
  by (simp add: sets_flags_def)

lemma sets_flags_nth:
  "sets_flags f S \<Longrightarrow> p < length h \<Longrightarrow> f h ! p = (if p \<in> S then 1 else h ! p)"
  by (simp add: sets_flags_def)

lemma sets_flags_skip: "sets_flags (\<lambda>h. h) {}"
  by (simp add: sets_flags_def)

lemma sets_flags_update: "sets_flags (\<lambda>h. h[k := 1]) {k}"
  by (simp add: sets_flags_def nth_list_update)

lemma sets_flags_foldl:
  "(\<And>x. x \<in> set xs \<Longrightarrow> sets_flags (f x) (S x)) \<Longrightarrow>
   sets_flags (\<lambda>h. foldl (\<lambda>a x. f x a) h xs) (\<Union>x \<in> set xs. S x)"
proof (induction xs rule: rev_induct)
  case Nil
  show ?case by (simp add: sets_flags_skip)
next
  case (snoc x xs)
  have prev: "sets_flags (\<lambda>h. foldl (\<lambda>a x. f x a) h xs) (\<Union>x \<in> set xs. S x)"
    using snoc by simp
  have cur: "sets_flags (f x) (S x)" using snoc.prems by simp
  show ?case
  proof (rule sets_flags_I)
    fix h :: "int list" show "length (foldl (\<lambda>a x. f x a) h (xs @ [x])) = length h"
      by (simp add: sets_flags_length [OF cur] sets_flags_length [OF prev])
  next
    fix h :: "int list" and p assume "p < length h"
    then show "foldl (\<lambda>a x. f x a) h (xs @ [x]) ! p
        = (if p \<in> (\<Union>x \<in> set (xs @ [x]). S x) then 1 else h ! p)"
      by (simp add: sets_flags_nth [OF cur] sets_flags_length [OF prev]
            sets_flags_nth [OF prev])
  qed
qed

lemma foldl_update_length: "length (foldl (\<lambda>a k. a[k := v]) a ks) = length a"
  by (induction ks arbitrary: a) simp_all

lemma foldl_update_nth:
  "q < length a \<Longrightarrow> foldl (\<lambda>a k. a[k := v]) a ks ! q = (if q \<in> set ks then v else a ! q)"
  by (induction ks arbitrary: a) (auto simp: nth_list_update)

subsection \<open>The test on a pair and the loops over the points of two cells\<close>

lemma pair_is_neighbor_iff:
  "pair_is_neighbor wfn px py pz rp_sq pi_sq w1 qx qy qz w2 \<longleftrightarrow>
     (px - qx) * (px - qx) + (py - qy) * (py - qy) < rp_sq \<and>
     (pz - qz) * (pz - qz) < pi_sq \<and>
     wfn w1 w2 \<and>
     (pz - qz) * (pz - qz) + ((px - qx) * (px - qx) + (py - qy) * (py - qy)) > 0"
  by (simp add: pair_is_neighbor_def Let_def)

lemma shift_to_secondary:
  "pair_is_neighbor wfn (px - sx) (py - sy) (pz - sz) rp_sq pi_sq w1 qx qy qz w2
     = pair_is_neighbor wfn px py pz rp_sq pi_sq w1 (qx + sx) (qy + sy) (qz + sz) w2"
proof -
  have "px - sx - qx = px - (qx + sx)" "py - sy - qy = py - (qy + sy)"
    "pz - sz - qz = pz - (qz + sz)"
    by simp_all
  then show ?thesis unfolding pair_is_neighbor_iff by (simp only:)
qed

lemma j_loop_eq:
  "j_loop test k js h = (if \<exists>j \<in> set js. test j then h[k := 1] else h)"
  by (induction js) auto

lemma j_loop_break:
  "(\<forall>j' \<in> set js1. \<not> test j') \<Longrightarrow> test j \<Longrightarrow> j_loop test k (js1 @ j # js2) h = h[k := 1]"
  by (induction js1) simp_all

lemma slice_nth:
  "i < stop - start \<Longrightarrow> start \<le> length a \<Longrightarrow> slice a start stop ! i = a ! (start + i)"
  by (simp add: slice_def)

lemma fancy_nth: "p < length idx \<Longrightarrow> fancy a idx ! p = a ! (idx ! p)"
  by (simp add: fancy_def)

lemma range_reindex:
  "(\<exists>j \<in> set [0..<stop - start]. P (start + j)) \<longleftrightarrow> (\<exists>q. start \<le> q \<and> q < stop \<and> P q)"
proof
  assume "\<exists>j \<in> set [0..<stop - start]. P (start + j)"
  then obtain j where "j < stop - start" "P (start + j)" by auto
  then show "\<exists>q. start \<le> q \<and> q < stop \<and> P q"
    by (intro exI [of _ "start + j"]) auto
next
  assume "\<exists>q. start \<le> q \<and> q < stop \<and> P q"
  then obtain q where "start \<le> q" "q < stop" "P q" by auto
  then show "\<exists>j \<in> set [0..<stop - start]. P (start + j)"
    by (intro bexI [of _ "q - start"]) auto
qed

lemma i_body_eq:
  assumes "i < ilast1 - ifirst1" and "sized L n1 n2" and "ifirst1 \<le> n1" and "ifirst2 \<le> n2"
  shows "i_body L ifirst1 ilast1 ifirst2 ilast2 v i h =
     (if neighbor_in_cell2 L ifirst2 ilast2 v (ifirst1 + i) then h[ifirst1 + i := 1] else h)"
proof -
  let ?test = "\<lambda>q. pair_is_neighbor (wfunc L)
              (x1 L ! (ifirst1 + i) - x2shift v) (y1 L ! (ifirst1 + i) - y2shift v)
              (z1 L ! (ifirst1 + i) - z2shift v)
              (rp_max_squared L ! (ifirst1 + i)) (pi_max_squared L ! (ifirst1 + i))
              (weights1 L ! (ifirst1 + i))
              (x2 L ! q) (y2 L ! q) (z2 L ! q) (weights2 L ! q)"
  have prim: "slice (x1 L) ifirst1 ilast1 ! i = x1 L ! (ifirst1 + i)"
    "slice (y1 L) ifirst1 ilast1 ! i = y1 L ! (ifirst1 + i)"
    "slice (z1 L) ifirst1 ilast1 ! i = z1 L ! (ifirst1 + i)"
    "slice (weights1 L) ifirst1 ilast1 ! i = weights1 L ! (ifirst1 + i)"
    using assms by (simp_all add: slice_nth sized_def)
  have sec: "slice (x2 L) ifirst2 ilast2 ! j = x2 L ! (ifirst2 + j)"
    "slice (y2 L) ifirst2 ilast2 ! j = y2 L ! (ifirst2 + j)"
    "slice (z2 L) ifirst2 ilast2 ! j = z2 L ! (ifirst2 + j)"
    "slice (weights2 L) ifirst2 ilast2 ! j = weights2 L ! (ifirst2 + j)"
    if "j \<in> set [0..<ilast2 - ifirst2]" for j
    using that assms by (simp_all add: slice_nth sized_def)
  have "(\<exists>j \<in> set [0..<ilast2 - ifirst2].
           pair_is_neighbor (wfunc L)
             (slice (x1 L) ifirst1 ilast1 ! i - x2shift v)
             (slice (y1 L) ifirst1 ilast1 ! i - y2shift v)
             (slice (z1 L) ifirst1 ilast1 ! i - z2shift v)
             (rp_max_squared L ! (ifirst1 + i)) (pi_max_squared L ! (ifirst1 + i))
             (slice (weights1 L) ifirst1 ilast1 ! i)
             (slice (x2 L) ifirst2 ilast2 ! j) (slice (y2 L) ifirst2 ilast2 ! j)
             (slice (z2 L) ifirst2 ilast2 ! j) (slice (weights2 L) ifirst2 ilast2 ! j))
      \<longleftrightarrow> (\<exists>j \<in> set [0..<ilast2 - ifirst2]. ?test (ifirst2 + j))"
    by (rule bex_cong [OF refl]) (simp only: prim sec)
  also have "\<dots> \<longleftrightarrow> neighbor_in_cell2 L ifirst2 ilast2 v (ifirst1 + i)"
    unfolding neighbor_in_cell2_def by (rule range_reindex)
  finally show ?thesis
    unfolding i_body_def Let_def j_loop_eq by (simp only:)
qed

lemma sets_flags_i_body:
  assumes "i < ilast1 - ifirst1" and "sized L n1 n2" and "ifirst1 \<le> n1" and "ifirst2 \<le> n2"
  shows "sets_flags (i_body L ifirst1 ilast1 ifirst2 ilast2 v i)
           (if neighbor_in_cell2 L ifirst2 ilast2 v (ifirst1 + i) then {ifirst1 + i} else {})"
proof (cases "neighbor_in_cell2 L ifirst2 ilast2 v (ifirst1 + i)")
  case True
  then have "i_body L ifirst1 ilast1 ifirst2 ilast2 v i = (\<lambda>h. h[ifirst1 + i := 1])"
    using i_body_eq [OF assms] by (intro ext) simp
  with True show ?thesis by (simp add: sets_flags_update)
next
  case False
  then have "i_body L ifirst1 ilast1 ifirst2 ilast2 v i = (\<lambda>h. h)"
    using i_body_eq [OF assms] by (intro ext) simp
  with False show ?thesis by (simp add: sets_flags_skip)
qed

lemma sets_flags_cell_pair_scan:
  assumes "sized L n1 n2" and "ifirst1 \<le> n1"
    and "cell_id_indices (mesh2 dm) ! nat (icell2 v) \<le> n2"
  shows "sets_flags (cell_pair_scan L dm ifirst1 ilast1 v)
           {p. ifirst1 \<le> p \<and> p < ilast1 \<and>
               neighbor_in_cell2 L (cell_id_indices (mesh2 dm) ! nat (icell2 v))
                 (cell_id_indices (mesh2 dm) ! nat (icell2 v + 1)) v p}"
    (is "sets_flags _ ?S")
proof -
  define ifirst2 where "ifirst2 = cell_id_indices (mesh2 dm) ! nat (icell2 v)"
  define ilast2 where "ilast2 = cell_id_indices (mesh2 dm) ! nat (icell2 v + 1)"
  have S: "?S = {p. ifirst1 \<le> p \<and> p < ilast1 \<and> neighbor_in_cell2 L ifirst2 ilast2 v p}"
    by (simp add: ifirst2_def ilast2_def)
  show ?thesis
  proof (cases "ilast2 - ifirst2 > 0")
    case False
    then have none: "\<not> neighbor_in_cell2 L ifirst2 ilast2 v p" for p
      by (auto simp: neighbor_in_cell2_def)
    have "cell_pair_scan L dm ifirst1 ilast1 v = (\<lambda>h. h)"
      using False by (intro ext) (simp add: cell_pair_scan_def Let_def ifirst2_def ilast2_def)
    then show ?thesis using none by (simp add: S sets_flags_skip)
  next
    case True
    have each: "sets_flags (i_body L ifirst1 ilast1 ifirst2 ilast2 v i)
        (if neighbor_in_cell2 L ifirst2 ilast2 v (ifirst1 + i) then {ifirst1 + i} else {})"
      if "i \<in> set [0..<ilast1 - ifirst1]" for i
      using that assms by (intro sets_flags_i_body [where ?n1.0 = n1 and ?n2.0 = n2])
        (auto simp: ifirst2_def)
    have eq: "cell_pair_scan L dm ifirst1 ilast1 v =
        (\<lambda>h. foldl (\<lambda>a i. i_body L ifirst1 ilast1 ifirst2 ilast2 v i a) h [0..<ilast1 - ifirst1])"
      using True by (intro ext) (simp add: cell_pair_scan_def Let_def ifirst2_def ilast2_def)
    have set_eq: "(\<Union>i \<in> set [0..<ilast1 - ifirst1].
          (if neighbor_in_cell2 L ifirst2 ilast2 v (ifirst1 + i) then {ifirst1 + i} else {}))
        = {p. ifirst1 \<le> p \<and> p < ilast1 \<and> neighbor_in_cell2 L ifirst2 ilast2 v p}"
      (is "?A = ?B")
    proof (intro set_eqI iffI)
      fix p assume "p \<in> ?A"
      then obtain i where "i < ilast1 - ifirst1" "neighbor_in_cell2 L ifirst2 ilast2 v (ifirst1 + i)"
          "p = ifirst1 + i"
        by (auto split: if_splits)
      then show "p \<in> ?B" by auto
    next
      fix p assume "p \<in> ?B"
      then have "p - ifirst1 \<in> set [0..<ilast1 - ifirst1]"
          "neighbor_in_cell2 L ifirst2 ilast2 v (ifirst1 + (p - ifirst1))"
          "p = ifirst1 + (p - ifirst1)"
        by auto
      then show "p \<in> ?A" by (intro UN_I [of "p - ifirst1"]) auto
    qed
    show ?thesis
      unfolding eq S
      using sets_flags_foldl [where xs = "[0..<ilast1 - ifirst1]"
          and f = "i_body L ifirst1 ilast1 ifirst2 ilast2 v"
          and S = "\<lambda>i. if neighbor_in_cell2 L ifirst2 ilast2 v (ifirst1 + i)
                     then {ifirst1 + i} else {}", OF each]
      by (simp only: set_eq)
  qed
qed

lemma cell_pair_scan_lookup:
  "cell_pair_scan L dm ifirst1 ilast1 v h =
     (if cell_id_indices (mesh2 dm) ! nat (icell2 v)
           < cell_id_indices (mesh2 dm) ! nat (icell2 v + 1)
      then foldl (\<lambda>a i. i_body L ifirst1 ilast1
                          (cell_id_indices (mesh2 dm) ! nat (icell2 v))
                          (cell_id_indices (mesh2 dm) ! nat (icell2 v + 1)) v i a)
             h [0..<ilast1 - ifirst1]
      else h)"
  by (simp add: cell_pair_scan_def Let_def)

subsection \<open>The loops over the secondary cells\<close>

lemma foldl_concat_map:
  "foldl (\<lambda>s x. foldl f s (g x)) s0 xs = foldl f s0 (concat (map g xs))"
  by (induction xs arbitrary: s0) simp_all

lemma foldl_snoc_list: "foldl (\<lambda>tr v. tr @ [v]) acc vs = acc @ vs"
  by (induction vs arbitrary: acc) simp_all

lemma cell2_loops_visits:
  "cell2_loops dm icell1 body s0 = foldl (\<lambda>s v. body v s) s0 (visits dm icell1)"
proof -
  have inner: "foldl (\<lambda>sz nz. body (visit dm nx ny nz) sz) sy zs
      = foldl (\<lambda>s v. body v s) sy (map (\<lambda>nz. visit dm nx ny nz) zs)" for nx ny sy zs
    by (simp add: foldl_map)
  show ?thesis
    unfolding cell2_loops_def visits_def inner foldl_concat_map ..
qed

lemma visited_visits: "visited dm icell1 = visits dm icell1"
  by (simp add: visited_def cell2_loops_visits foldl_snoc_list)

lemma cell2_loops_visited:
  "cell2_loops dm icell1 body s0 = foldl (\<lambda>s v. body v s) s0 (visited dm icell1)"
  by (simp add: visited_visits cell2_loops_visits)

lemma set_py_range: "set (py_range start stop) = {start..<stop}"
  by (auto simp: py_range_def)

lemma set_concat_map3:
  "set (concat (map (\<lambda>x. concat (map (\<lambda>y. map (g x y) zs) ys)) xs))
     = {v. \<exists>x y z. x \<in> set xs \<and> y \<in> set ys \<and> z \<in> set zs \<and> v = g x y z}"
  by auto

lemma visited_iff:
  "v \<in> set (visited dm icell1) \<longleftrightarrow>
     (\<exists>nx ny nz.
        leftmost_ix2 dm icell1 \<le> nx \<and> nx < rightmost_ix2 dm icell1 \<and>
        leftmost_iy2 dm icell1 \<le> ny \<and> ny < rightmost_iy2 dm icell1 \<and>
        leftmost_iz2 dm icell1 \<le> nz \<and> nz < rightmost_iz2 dm icell1 \<and>
        v = visit dm nx ny nz)"
  unfolding visited_visits visits_def set_concat_map3 set_py_range
  by (simp only: mem_Collect_eq atLeastLessThan_iff conj_assoc)

lemma visited_coordinates:
  "(\<lambda>v. (nonPBC_ix2 v, nonPBC_iy2 v, nonPBC_iz2 v)) ` set (visited dm icell1) =
     {leftmost_ix2 dm icell1..<rightmost_ix2 dm icell1}
     \<times> {leftmost_iy2 dm icell1..<rightmost_iy2 dm icell1}
     \<times> {leftmost_iz2 dm icell1..<rightmost_iz2 dm icell1}"
proof (intro set_eqI iffI)
  fix t
  assume "t \<in> (\<lambda>v. (nonPBC_ix2 v, nonPBC_iy2 v, nonPBC_iz2 v)) ` set (visited dm icell1)"
  then obtain v where "v \<in> set (visited dm icell1)"
    and t: "t = (nonPBC_ix2 v, nonPBC_iy2 v, nonPBC_iz2 v)" by blast
  then obtain nx ny nz where
    "leftmost_ix2 dm icell1 \<le> nx" "nx < rightmost_ix2 dm icell1"
    "leftmost_iy2 dm icell1 \<le> ny" "ny < rightmost_iy2 dm icell1"
    "leftmost_iz2 dm icell1 \<le> nz" "nz < rightmost_iz2 dm icell1"
    "v = visit dm nx ny nz"
    unfolding visited_iff by blast
  then show "t \<in> {leftmost_ix2 dm icell1..<rightmost_ix2 dm icell1}
     \<times> {leftmost_iy2 dm icell1..<rightmost_iy2 dm icell1}
     \<times> {leftmost_iz2 dm icell1..<rightmost_iz2 dm icell1}"
    unfolding t by (simp add: visit_def)
next
  fix t
  assume "t \<in> {leftmost_ix2 dm icell1..<rightmost_ix2 dm icell1}
     \<times> {leftmost_iy2 dm icell1..<rightmost_iy2 dm icell1}
     \<times> {leftmost_iz2 dm icell1..<rightmost_iz2 dm icell1}"
  then obtain nx ny nz where t: "t = (nx, ny, nz)" and
    "leftmost_ix2 dm icell1 \<le> nx" "nx < rightmost_ix2 dm icell1"
    "leftmost_iy2 dm icell1 \<le> ny" "ny < rightmost_iy2 dm icell1"
    "leftmost_iz2 dm icell1 \<le> nz" "nz < rightmost_iz2 dm icell1"
    by auto
  then have "visit dm nx ny nz \<in> set (visited dm icell1)"
    unfolding visited_iff by blast
  moreover have "t = (nonPBC_ix2 (visit dm nx ny nz), nonPBC_iy2 (visit dm nx ny nz),
      nonPBC_iz2 (visit dm nx ny nz))"
    unfolding t by (simp add: visit_def)
  ultimately show "t \<in> (\<lambda>v. (nonPBC_ix2 v, nonPBC_iy2 v, nonPBC_iz2 v)) ` set (visited dm icell1)"
    by (rule rev_image_eqI)
qed

lemma axis_shift_no_PBCs: "axis_shift nonPBC_i2 num_2divs period 0 = 0"
  by (simp add: axis_shift_def)

lemma visit_no_PBCs:
  assumes "PBCs dm = 0"
  shows "x2shift (visit dm nx ny nz) = 0" and "y2shift (visit dm nx ny nz) = 0"
    and "z2shift (visit dm nx ny nz) = 0"
  using assms by (simp_all add: visit_def axis_shift_no_PBCs)

lemma flat_index_bounds:
  fixes a b c X Y Z :: int
  assumes "0 \<le> a" "a < X" "0 \<le> b" "b < Y" "0 \<le> c" "c < Z"
  shows "0 \<le> a * (Y * Z) + b * Z + c" and "a * (Y * Z) + b * Z + c < X * Y * Z"
proof -
  show "0 \<le> a * (Y * Z) + b * Z + c" using assms by simp
  have "a * (Y * Z) \<le> (X - 1) * (Y * Z)"
    using assms by (intro mult_right_mono) auto
  moreover have "b * Z \<le> (Y - 1) * Z"
    using assms by (intro mult_right_mono) auto
  ultimately have "a * (Y * Z) + b * Z + c \<le> (X - 1) * (Y * Z) + (Y - 1) * Z + (Z - 1)"
    using assms by linarith
  also have "\<dots> = X * Y * Z - 1" by (simp add: algebra_simps)
  finally show "a * (Y * Z) + b * Z + c < X * Y * Z" by simp
qed

subsection \<open>Consequences of validity\<close>

lemma valid_mesh_idx:
  assumes "valid_mesh m n"
  shows "length (idx_sorted m) = n" and "distinct (idx_sorted m)"
    and "list_all (\<lambda>k. k < n) (idx_sorted m)"
  using assms unfolding valid_mesh_def by blast+

lemma valid_mesh_idx_nth: "valid_mesh m n \<Longrightarrow> p < n \<Longrightarrow> idx_sorted m ! p < n"
  using valid_mesh_idx [of m n] by (auto simp: list_all_length)

lemma permutation_onto:
  assumes "length idx = n" and "distinct idx" and "list_all (\<lambda>k. k < n) idx" and "k < n"
  shows "\<exists>p<n. idx ! p = k"
proof -
  have sub: "set idx \<subseteq> {0..<n}" using assms(3) by (auto simp: list_all_iff)
  have "card (set idx) = n" using assms(1,2) by (simp add: distinct_card)
  then have "set idx = {0..<n}" using sub by (intro card_subset_eq) auto
  then have "k \<in> set idx" using assms(4) by simp
  then show ?thesis using assms(1) by (auto simp: in_set_conv_nth)
qed

lemma valid_invocation_meshes:
  assumes "valid_invocation dm x1in y1in z1in x2in y2in z2in weights1in weights2in
             weight_func_idin rp_max pi_max cell1_tuple"
  shows "valid_mesh (mesh1 dm) (length x1in)" and "valid_mesh (mesh2 dm) (length x2in)"
    and "0 \<le> fst cell1_tuple" and "snd cell1_tuple \<le> ncells (mesh1 dm)"
    and "0 \<le> weight_func_idin" and "weight_func_idin \<le> 6"
  using assms unfolding valid_invocation_def by blast+

lemma valid_invocation_lengths:
  assumes "valid_invocation dm x1in y1in z1in x2in y2in z2in weights1in weights2in
             weight_func_idin rp_max pi_max cell1_tuple"
  shows "length y1in = length x1in" and "length z1in = length x1in"
    and "length weights1in = length x1in"
    and "length rp_max = length x1in" and "length pi_max = length x1in"
    and "length y2in = length x2in" and "length z2in = length x2in"
    and "length weights2in = length x2in"
  using assms unfolding valid_invocation_def by blast+

lemma valid_invocation_range:
  assumes "valid_invocation dm x1in y1in z1in x2in y2in z2in weights1in weights2in
             weight_func_idin rp_max pi_max (first_cell, last_cell)"
    and "0 \<le> a" and "b \<le> ncells (mesh1 dm)"
  shows "valid_invocation dm x1in y1in z1in x2in y2in z2in weights1in weights2in
             weight_func_idin rp_max pi_max (a, b)"
  using assms unfolding valid_invocation_def by simp

lemma recognised_code:
  assumes "0 \<le> code" and "code \<le> 6"
  shows "\<exists>wfn. return_conditional_function code = Inr wfn"
  using assms by (simp add: return_conditional_function_def)

lemma engine_locals_sized:
  assumes "valid_mesh (mesh1 dm) n1" and "valid_mesh (mesh2 dm) n2"
  shows "sized (engine_locals wfn dm x1in y1in z1in x2in y2in z2in weights1in weights2in
                  rp_max pi_max) n1 n2"
  using valid_mesh_idx(1) [OF assms(1)] valid_mesh_idx(1) [OF assms(2)]
  by (simp add: sized_def engine_locals_def fancy_def)

lemma offset_le_npts:
  assumes "valid_mesh m npts" and "0 \<le> c" and "c \<le> ncells m"
  shows "cell_id_indices m ! nat c \<le> npts"
proof -
  have "sorted (cell_id_indices m)" and len: "length (cell_id_indices m) = nat (ncells m) + 1"
    and top: "cell_id_indices m ! nat (ncells m) = npts"
    using assms(1) unfolding valid_mesh_def by blast+
  then have "cell_id_indices m ! nat c \<le> cell_id_indices m ! nat (ncells m)"
    using assms(2,3) by (intro sorted_nth_mono) auto
  with top show ?thesis by simp
qed

lemma cell_of_position_unique:
  assumes vm: "valid_mesh m n"
    and c: "0 \<le> c" "c < ncells m" and c': "0 \<le> c'" "c' < ncells m"
    and pc: "cell_id_indices m ! nat c \<le> p" "p < cell_id_indices m ! nat (c + 1)"
    and pc': "cell_id_indices m ! nat c' \<le> p" "p < cell_id_indices m ! nat (c' + 1)"
  shows "c = c'"
proof -
  have srt: "sorted (cell_id_indices m)"
    and len: "length (cell_id_indices m) = nat (ncells m) + 1"
    using vm unfolding valid_mesh_def by blast+
  have ordered: False
    if "0 \<le> a" "a < b" "b < ncells m"
      "p < cell_id_indices m ! nat (a + 1)" "cell_id_indices m ! nat b \<le> p" for a b
  proof -
    have "cell_id_indices m ! nat (a + 1) \<le> cell_id_indices m ! nat b"
      using that len by (intro sorted_nth_mono [OF srt]) auto
    with that show False by simp
  qed
  show ?thesis
  proof (rule ccontr)
    assume "c \<noteq> c'"
    then consider "c < c'" | "c' < c" by linarith
    then show False
      using ordered [of c c'] ordered [of c' c] c c' pc pc' by cases auto
  qed
qed

lemma icell2_visit_bounds:
  assumes "valid_mesh (mesh2 dm) n2"
  shows "0 \<le> icell2 (visit dm nx ny nz)" and "icell2 (visit dm nx ny nz) < ncells (mesh2 dm)"
proof -
  have pos: "0 < num_xdivs (mesh2 dm)" "0 < num_ydivs (mesh2 dm)" "0 < num_zdivs (mesh2 dm)"
    and nc: "ncells (mesh2 dm) = num_xdivs (mesh2 dm) * num_ydivs (mesh2 dm) * num_zdivs (mesh2 dm)"
    using assms unfolding valid_mesh_def by blast+
  have b: "0 \<le> nx mod num_xdivs (mesh2 dm)" "nx mod num_xdivs (mesh2 dm) < num_xdivs (mesh2 dm)"
    "0 \<le> ny mod num_ydivs (mesh2 dm)" "ny mod num_ydivs (mesh2 dm) < num_ydivs (mesh2 dm)"
    "0 \<le> nz mod num_zdivs (mesh2 dm)" "nz mod num_zdivs (mesh2 dm) < num_zdivs (mesh2 dm)"
    using pos by simp_all
  show "0 \<le> icell2 (visit dm nx ny nz)"
    unfolding visit_def using flat_index_bounds(1) [OF b] by simp
  show "icell2 (visit dm nx ny nz) < ncells (mesh2 dm)"
    unfolding visit_def nc using flat_index_bounds(2) [OF b] by simp
qed

subsection \<open>The loop over the primary cells\<close>

text \<open>The flags after the scan, position by position: under validity the scan of the work
  range flags exactly the positions in the union of \<open>cell1_marks\<close> over its cells.\<close>

lemma cell1_body_visited:
  "cell1_body L dm icell1 h =
     (if cell_id_indices (mesh1 dm) ! nat icell1 < cell_id_indices (mesh1 dm) ! nat (icell1 + 1)
      then foldl (\<lambda>a v. cell_pair_scan L dm (cell_id_indices (mesh1 dm) ! nat icell1)
                          (cell_id_indices (mesh1 dm) ! nat (icell1 + 1)) v a)
             h (visited dm icell1)
      else h)"
  by (simp add: cell1_body_def Let_def cell2_loops_visited)

lemma sets_flags_cell1_body:
  assumes "sized L n1 n2" and "valid_mesh (mesh1 dm) n1" and "valid_mesh (mesh2 dm) n2"
    and "0 \<le> icell1" and "icell1 < ncells (mesh1 dm)"
  shows "sets_flags (cell1_body L dm icell1) (cell1_marks L dm icell1)"
proof -
  define ifirst1 where "ifirst1 = cell_id_indices (mesh1 dm) ! nat icell1"
  define ilast1 where "ilast1 = cell_id_indices (mesh1 dm) ! nat (icell1 + 1)"
  define M where "M = (\<lambda>v. {p. ifirst1 \<le> p \<and> p < ilast1 \<and>
       neighbor_in_cell2 L (cell_id_indices (mesh2 dm) ! nat (icell2 v))
         (cell_id_indices (mesh2 dm) ! nat (icell2 v + 1)) v p})"
  have marks: "cell1_marks L dm icell1 = (\<Union>v \<in> set (visited dm icell1). M v)"
    by (auto simp: cell1_marks_def M_def ifirst1_def ilast1_def)
  have f1: "ifirst1 \<le> n1"
    unfolding ifirst1_def using assms by (intro offset_le_npts) auto
  have each: "sets_flags (cell_pair_scan L dm ifirst1 ilast1 v) (M v)"
    if vin: "v \<in> set (visited dm icell1)" for v
  proof -
    obtain nx ny nz where v: "v = visit dm nx ny nz"
      using vin unfolding visited_iff by blast
    have "cell_id_indices (mesh2 dm) ! nat (icell2 v) \<le> n2"
      using icell2_visit_bounds [OF assms(3), of nx ny nz] assms(3)
      unfolding v by (intro offset_le_npts) auto
    then show ?thesis
      unfolding M_def using assms(1) f1 by (intro sets_flags_cell_pair_scan)
  qed
  show ?thesis
  proof (cases "ilast1 - ifirst1 > 0")
    case True
    then have "cell1_body L dm icell1 =
        (\<lambda>h. foldl (\<lambda>a v. cell_pair_scan L dm ifirst1 ilast1 v a) h (visited dm icell1))"
      by (intro ext) (simp add: cell1_body_def Let_def ifirst1_def ilast1_def cell2_loops_visited)
    then show ?thesis
      unfolding marks
      using sets_flags_foldl [where xs = "visited dm icell1"
          and f = "cell_pair_scan L dm ifirst1 ilast1" and S = M, OF each]
      by simp
  next
    case False
    then have "cell1_body L dm icell1 = (\<lambda>h. h)"
      by (intro ext) (simp add: cell1_body_def Let_def ifirst1_def ilast1_def)
    moreover have "cell1_marks L dm icell1 = {}"
      using False by (auto simp: marks M_def)
    ultimately show ?thesis by (simp add: sets_flags_skip)
  qed
qed

lemma sets_flags_cell1_loop:
  assumes "sized L n1 n2" and "valid_mesh (mesh1 dm) n1" and "valid_mesh (mesh2 dm) n2"
    and "0 \<le> first_cell" and "last_cell \<le> ncells (mesh1 dm)"
  shows "sets_flags (cell1_loop L dm first_cell last_cell)
           (\<Union>c \<in> {first_cell..<last_cell}. cell1_marks L dm c)"
proof -
  have each: "sets_flags (cell1_body L dm c) (cell1_marks L dm c)"
    if "c \<in> set (py_range first_cell last_cell)" for c
    using that assms by (intro sets_flags_cell1_body) (auto simp: set_py_range)
  have "cell1_loop L dm first_cell last_cell =
      (\<lambda>h. foldl (\<lambda>a c. cell1_body L dm c a) h (py_range first_cell last_cell))"
    by (intro ext) (simp add: cell1_loop_def)
  then show ?thesis
    using sets_flags_foldl [where xs = "py_range first_cell last_cell"
        and f = "cell1_body L dm" and S = "cell1_marks L dm", OF each]
    by (simp add: set_py_range)
qed

lemma scan_has_neighbor_spec:
  assumes "valid_invocation dm x1in y1in z1in x2in y2in z2in weights1in weights2in
             weight_func_idin rp_max pi_max cell1_tuple"
  shows "length (scan_has_neighbor wfn dm x1in y1in z1in x2in y2in z2in weights1in weights2in
                   rp_max pi_max cell1_tuple) = length x1in"
    and "p < length x1in \<Longrightarrow>
         scan_has_neighbor wfn dm x1in y1in z1in x2in y2in z2in weights1in weights2in
             rp_max pi_max cell1_tuple ! p
         = (if p \<in> (\<Union>c \<in> {fst cell1_tuple..<snd cell1_tuple}.
                      cell1_marks (engine_locals wfn dm x1in y1in z1in x2in y2in z2in
                         weights1in weights2in rp_max pi_max) dm c)
            then 1 else 0)"
proof -
  note m = valid_invocation_meshes [OF assms]
  let ?L = "engine_locals wfn dm x1in y1in z1in x2in y2in z2in weights1in weights2in
      rp_max pi_max"
  have sf: "sets_flags (cell1_loop ?L dm (fst cell1_tuple) (snd cell1_tuple))
      (\<Union>c \<in> {fst cell1_tuple..<snd cell1_tuple}. cell1_marks ?L dm c)"
    using engine_locals_sized [OF m(1,2)] m by (intro sets_flags_cell1_loop)
  show "length (scan_has_neighbor wfn dm x1in y1in z1in x2in y2in z2in weights1in weights2in
                   rp_max pi_max cell1_tuple) = length x1in"
    unfolding scan_has_neighbor_def by (simp add: sets_flags_length [OF sf])
  show "scan_has_neighbor wfn dm x1in y1in z1in x2in y2in z2in weights1in weights2in
             rp_max pi_max cell1_tuple ! p
         = (if p \<in> (\<Union>c \<in> {fst cell1_tuple..<snd cell1_tuple}. cell1_marks ?L dm c)
            then 1 else 0)" if "p < length x1in"
    unfolding scan_has_neighbor_def using that by (simp add: sets_flags_nth [OF sf])
qed

lemma empty_range_scan:
  assumes "snd cell1_tuple \<le> fst cell1_tuple"
  shows "scan_has_neighbor wfn dm x1in y1in z1in x2in y2in z2in weights1in weights2in
           rp_max pi_max cell1_tuple = replicate (length x1in) 0"
  using assms by (simp add: scan_has_neighbor_def cell1_loop_def py_range_def)

lemma marked_position:
  assumes "p \<in> (\<Union>c \<in> {first_cell..<last_cell}. cell1_marks L dm c)"
  obtains nx ny nz q where
    "cell_id_indices (mesh2 dm) ! nat (icell2 (visit dm nx ny nz)) \<le> q"
    "q < cell_id_indices (mesh2 dm) ! nat (icell2 (visit dm nx ny nz) + 1)"
    "pair_is_neighbor (wfunc L)
       (x1 L ! p - x2shift (visit dm nx ny nz)) (y1 L ! p - y2shift (visit dm nx ny nz))
       (z1 L ! p - z2shift (visit dm nx ny nz))
       (rp_max_squared L ! p) (pi_max_squared L ! p) (weights1 L ! p)
       (x2 L ! q) (y2 L ! q) (z2 L ! q) (weights2 L ! q)"
proof -
  from assms obtain c v where "v \<in> set (visited dm c)"
    and n: "neighbor_in_cell2 L (cell_id_indices (mesh2 dm) ! nat (icell2 v))
        (cell_id_indices (mesh2 dm) ! nat (icell2 v + 1)) v p"
    unfolding cell1_marks_def by blast
  then obtain nx ny nz where v: "v = visit dm nx ny nz"
    unfolding visited_iff by blast
  from n show ?thesis
    unfolding neighbor_in_cell2_def v using that by blast
qed

subsection \<open>Assembling the result\<close>

lemma selected_set:
  assumes "length idx = length h"
  shows "set (map fst (filter snd (zip idx (map (\<lambda>x. x = 0) h))))
           = {k. \<exists>p<length h. idx ! p = k \<and> h ! p = (0::int)}"
  using assms by (auto simp: set_zip image_iff) force+

lemma result_assembly_length: "length (result_assembly idx h n) = n"
  by (simp add: result_assembly_def Let_def foldl_update_length)

lemma result_assembly_nth:
  assumes "length idx = length h" and "q < n"
  shows "result_assembly idx h n ! q = (if \<exists>p<length h. idx ! p = q \<and> h ! p = 0 then 1 else 0)"
proof -
  have "result_assembly idx h n ! q
      = (if q \<in> set (map fst (filter snd (zip idx (map (\<lambda>x. x = 0) h)))) then 1 else 0)"
    unfolding result_assembly_def Let_def using assms(2)
    by (subst foldl_update_nth) simp_all
  then show ?thesis
    unfolding selected_set [OF assms(1)] by simp
qed

lemma result_assembly_sorted_position:
  assumes "length idx = n" and "length h = n" and "distinct idx" and "p < n" and "idx ! p < n"
  shows "result_assembly idx h n ! (idx ! p) = (if h ! p = 0 then 1 else 0)"
proof -
  have "(\<exists>p'<length h. idx ! p' = idx ! p \<and> h ! p' = 0) \<longleftrightarrow> h ! p = 0"
    using assms by (auto simp: nth_eq_iff_index_eq)
  then show ?thesis
    using assms result_assembly_nth [of idx h "idx ! p" n] by simp
qed

lemma selected_code_fits:
  assumes "return_conditional_function code = Inr wfn"
  shows "- (2 ^ 31) \<le> code \<and> code < 2 ^ 31"
  using assms by (simp add: return_conditional_function_def split: if_splits)

lemma recognised_code_any_compilation:
  assumes "0 \<le> weight_func_idin" and "weight_func_idin \<le> 6"
  shows "marked_cylindrical_isolation_engine_compiled raises dm x1in y1in z1in x2in y2in z2in
             weights1in weights2in weight_func_idin rp_max pi_max cell1_tuple
         = marked_cylindrical_isolation_engine dm x1in y1in z1in x2in y2in z2in
             weights1in weights2in weight_func_idin rp_max pi_max cell1_tuple"
proof -
  obtain wfn where "return_conditional_function weight_func_idin = Inr wfn"
    using recognised_code [OF assms] by blast
  moreover have "to_c_int weight_func_idin = Inr weight_func_idin"
    using assms by (simp add: to_c_int_def)
  ultimately show ?thesis
    by (simp add: marked_cylindrical_isolation_engine_def
          marked_cylindrical_isolation_engine_compiled_def)
qed

lemma engine_result:
  assumes "return_conditional_function weight_func_idin = Inr wfn"
  shows "marked_cylindrical_isolation_engine dm x1in y1in z1in x2in y2in z2in
             weights1in weights2in weight_func_idin rp_max pi_max cell1_tuple
         = Inr (result_assembly (idx_sorted (mesh1 dm))
                  (scan_has_neighbor wfn dm x1in y1in z1in x2in y2in z2in
                     weights1in weights2in rp_max pi_max cell1_tuple)
                  (length x1in))"
  using assms selected_code_fits [OF assms]
  by (simp add: marked_cylindrical_isolation_engine_def
        marked_cylindrical_isolation_engine_compiled_def to_c_int_def)

lemma engine_at_sorted_position:
  assumes v: "valid_invocation dm x1in y1in z1in x2in y2in z2in weights1in weights2in
             weight_func_idin rp_max pi_max cell1_tuple"
    and w: "return_conditional_function weight_func_idin = Inr wfn"
    and p: "p < length x1in"
  shows "\<exists>res. marked_cylindrical_isolation_engine dm x1in y1in z1in x2in y2in z2in
             weights1in weights2in weight_func_idin rp_max pi_max cell1_tuple = Inr res \<and>
           length res = length x1in \<and>
           idx_sorted (mesh1 dm) ! p < length x1in \<and>
           res ! (idx_sorted (mesh1 dm) ! p) =
             (if scan_has_neighbor wfn dm x1in y1in z1in x2in y2in z2in
                   weights1in weights2in rp_max pi_max cell1_tuple ! p = 0 then 1 else 0)"
proof -
  note m = valid_invocation_meshes [OF v]
  note idx = valid_mesh_idx [OF m(1)]
  have inr: "idx_sorted (mesh1 dm) ! p < length x1in"
    using p by (intro valid_mesh_idx_nth [OF m(1)])
  show ?thesis
    unfolding engine_result [OF w]
    using p inr idx scan_has_neighbor_spec(1) [OF v]
    by (simp add: result_assembly_length result_assembly_sorted_position)
qed

subsection \<open>The shift in the distance computation\<close>

text \<open>The body of the loop over the primary points with its arithmetic written out: the
  shift of the visit is subtracted from the primary coordinates (lines 224-226), which
  is the test on the unshifted primary point against the secondary points moved by the
  shift. \<open>scan_flag_iff\<close> says which sorted positions the scan of a valid invocation
  flags.\<close>

lemma i_body_shift_subtracted:
  assumes "i < ilast1 - ifirst1" and "sized L n1 n2" and "ifirst1 \<le> n1" and "ifirst2 \<le> n2"
  shows "i_body L ifirst1 ilast1 ifirst2 ilast2 v i h =
     (if \<exists>q. ifirst2 \<le> q \<and> q < ilast2 \<and>
            (x1 L ! (ifirst1 + i) - x2shift v - x2 L ! q)
              * (x1 L ! (ifirst1 + i) - x2shift v - x2 L ! q)
            + (y1 L ! (ifirst1 + i) - y2shift v - y2 L ! q)
              * (y1 L ! (ifirst1 + i) - y2shift v - y2 L ! q)
              < rp_max_squared L ! (ifirst1 + i) \<and>
            (z1 L ! (ifirst1 + i) - z2shift v - z2 L ! q)
              * (z1 L ! (ifirst1 + i) - z2shift v - z2 L ! q)
              < pi_max_squared L ! (ifirst1 + i) \<and>
            wfunc L (weights1 L ! (ifirst1 + i)) (weights2 L ! q) \<and>
            (z1 L ! (ifirst1 + i) - z2shift v - z2 L ! q)
              * (z1 L ! (ifirst1 + i) - z2shift v - z2 L ! q)
            + ((x1 L ! (ifirst1 + i) - x2shift v - x2 L ! q)
                 * (x1 L ! (ifirst1 + i) - x2shift v - x2 L ! q)
               + (y1 L ! (ifirst1 + i) - y2shift v - y2 L ! q)
                 * (y1 L ! (ifirst1 + i) - y2shift v - y2 L ! q)) > 0
      then h[ifirst1 + i := 1] else h)"
  unfolding i_body_eq [OF assms] neighbor_in_cell2_def pair_is_neighbor_iff ..

lemma i_body_shift_added:
  assumes "i < ilast1 - ifirst1" and "sized L n1 n2" and "ifirst1 \<le> n1" and "ifirst2 \<le> n2"
  shows "i_body L ifirst1 ilast1 ifirst2 ilast2 v i h =
     (if \<exists>q. ifirst2 \<le> q \<and> q < ilast2 \<and>
            pair_is_neighbor (wfunc L)
              (x1 L ! (ifirst1 + i)) (y1 L ! (ifirst1 + i)) (z1 L ! (ifirst1 + i))
              (rp_max_squared L ! (ifirst1 + i)) (pi_max_squared L ! (ifirst1 + i))
              (weights1 L ! (ifirst1 + i))
              (x2 L ! q + x2shift v) (y2 L ! q + y2shift v) (z2 L ! q + z2shift v)
              (weights2 L ! q)
      then h[ifirst1 + i := 1] else h)"
  unfolding i_body_eq [OF assms] neighbor_in_cell2_def shift_to_secondary ..

lemma scan_flag_iff:
  assumes v: "valid_invocation dm x1in y1in z1in x2in y2in z2in weights1in weights2in
             weight_func_idin rp_max pi_max cell1_tuple"
    and p: "p < length x1in"
  shows "scan_has_neighbor wfn dm x1in y1in z1in x2in y2in z2in weights1in weights2in
             rp_max pi_max cell1_tuple ! p = 1 \<longleftrightarrow>
     (\<exists>c v q.
        fst cell1_tuple \<le> c \<and> c < snd cell1_tuple \<and>
        cell_id_indices (mesh1 dm) ! nat c \<le> p \<and>
        p < cell_id_indices (mesh1 dm) ! nat (c + 1) \<and>
        v \<in> set (visited dm c) \<and>
        cell_id_indices (mesh2 dm) ! nat (icell2 v) \<le> q \<and>
        q < cell_id_indices (mesh2 dm) ! nat (icell2 v + 1) \<and>
        pair_is_neighbor wfn
          (fancy x1in (idx_sorted (mesh1 dm)) ! p - x2shift v)
          (fancy y1in (idx_sorted (mesh1 dm)) ! p - y2shift v)
          (fancy z1in (idx_sorted (mesh1 dm)) ! p - z2shift v)
          (fancy (map (\<lambda>r. r * r) rp_max) (idx_sorted (mesh1 dm)) ! p)
          (fancy (map (\<lambda>r. r * r) pi_max) (idx_sorted (mesh1 dm)) ! p)
          (fancy weights1in (idx_sorted (mesh1 dm)) ! p)
          (fancy x2in (idx_sorted (mesh2 dm)) ! q)
          (fancy y2in (idx_sorted (mesh2 dm)) ! q)
          (fancy z2in (idx_sorted (mesh2 dm)) ! q)
          (fancy weights2in (idx_sorted (mesh2 dm)) ! q))"
    (is "?flag \<longleftrightarrow> ?rhs")
proof -
  let ?L = "engine_locals wfn dm x1in y1in z1in x2in y2in z2in weights1in weights2in
      rp_max pi_max"
  have "?flag \<longleftrightarrow> p \<in> (\<Union>c \<in> {fst cell1_tuple..<snd cell1_tuple}. cell1_marks ?L dm c)"
    using scan_has_neighbor_spec(2) [OF v p, of wfn] by simp
  also have "\<dots> \<longleftrightarrow> ?rhs"
    unfolding cell1_marks_def neighbor_in_cell2_def engine_locals_def
    by (simp only: UN_iff mem_Collect_eq atLeastLessThan_iff locals.simps Bex_def) blast
  finally show ?thesis .
qed

section \<open>Properties of the engine\<close>

subsection \<open>The neighbor test and the early exit\<close>

text \<open>
  Claim C1. The test on a pair, with the primary coordinates already shifted, holds exactly
  when the squared projected distance is strictly below the squared radius, the squared
  line-of-sight distance is strictly below the squared half-length, the selected
  predicate holds on the two weight vectors and the squared distance is positive; a
  pair exactly on the boundary of the cylinder fails it. For primary point \<open>i\<close> of a cell
  and one secondary cell, the scanner sets the flag of the point exactly when some
  point of the secondary cell passes the test, and leaves every flag alone otherwise;
  the loop over the secondary points stops at the first one that passes, so its result
  does not depend on the points after it.
\<close>

theorem pair_test_and_early_exit:
  "(pair_is_neighbor wfn px py pz rp_sq pi_sq w1 qx qy qz w2 \<longleftrightarrow>
      (px - qx) * (px - qx) + (py - qy) * (py - qy) < rp_sq \<and>
      (pz - qz) * (pz - qz) < pi_sq \<and>
      wfn w1 w2 \<and>
      (pz - qz) * (pz - qz) + ((px - qx) * (px - qx) + (py - qy) * (py - qy)) > 0) \<and>
   ((px - qx) * (px - qx) + (py - qy) * (py - qy) = rp_sq \<or> (pz - qz) * (pz - qz) = pi_sq
      \<longrightarrow> \<not> pair_is_neighbor wfn px py pz rp_sq pi_sq w1 qx qy qz w2) \<and>
   (i < ilast1 - ifirst1 \<and> sized L n1 n2 \<and> ifirst1 \<le> n1 \<and> ifirst2 \<le> n2 \<longrightarrow>
      i_body L ifirst1 ilast1 ifirst2 ilast2 v i h =
        (if \<exists>q. ifirst2 \<le> q \<and> q < ilast2 \<and>
               pair_is_neighbor (wfunc L)
                 (x1 L ! (ifirst1 + i) - x2shift v) (y1 L ! (ifirst1 + i) - y2shift v)
                 (z1 L ! (ifirst1 + i) - z2shift v)
                 (rp_max_squared L ! (ifirst1 + i)) (pi_max_squared L ! (ifirst1 + i))
                 (weights1 L ! (ifirst1 + i))
                 (x2 L ! q) (y2 L ! q) (z2 L ! q) (weights2 L ! q)
         then h[ifirst1 + i := 1] else h)) \<and>
   ((\<forall>j' \<in> set js1. \<not> test j') \<and> test j \<longrightarrow> j_loop test k (js1 @ j # js2) h = h[k := 1]) \<and>
   ((\<forall>j \<in> set js. \<not> test j) \<longrightarrow> j_loop test k js h = h)"
proof (intro conjI impI)
  show "pair_is_neighbor wfn px py pz rp_sq pi_sq w1 qx qy qz w2 \<longleftrightarrow>
      (px - qx) * (px - qx) + (py - qy) * (py - qy) < rp_sq \<and>
      (pz - qz) * (pz - qz) < pi_sq \<and>
      wfn w1 w2 \<and>
      (pz - qz) * (pz - qz) + ((px - qx) * (px - qx) + (py - qy) * (py - qy)) > 0"
    by (rule pair_is_neighbor_iff)
next
  assume "(px - qx) * (px - qx) + (py - qy) * (py - qy) = rp_sq \<or> (pz - qz) * (pz - qz) = pi_sq"
  then show "\<not> pair_is_neighbor wfn px py pz rp_sq pi_sq w1 qx qy qz w2"
    unfolding pair_is_neighbor_iff by auto
next
  assume a: "i < ilast1 - ifirst1 \<and> sized L n1 n2 \<and> ifirst1 \<le> n1 \<and> ifirst2 \<le> n2"
  then have "i_body L ifirst1 ilast1 ifirst2 ilast2 v i h =
     (if neighbor_in_cell2 L ifirst2 ilast2 v (ifirst1 + i) then h[ifirst1 + i := 1] else h)"
    by (intro i_body_eq [where ?n1.0 = n1 and ?n2.0 = n2]) simp_all
  then show "i_body L ifirst1 ilast1 ifirst2 ilast2 v i h =
        (if \<exists>q. ifirst2 \<le> q \<and> q < ilast2 \<and>
               pair_is_neighbor (wfunc L)
                 (x1 L ! (ifirst1 + i) - x2shift v) (y1 L ! (ifirst1 + i) - y2shift v)
                 (z1 L ! (ifirst1 + i) - z2shift v)
                 (rp_max_squared L ! (ifirst1 + i)) (pi_max_squared L ! (ifirst1 + i))
                 (weights1 L ! (ifirst1 + i))
                 (x2 L ! q) (y2 L ! q) (z2 L ! q) (weights2 L ! q)
         then h[ifirst1 + i := 1] else h)"
    unfolding neighbor_in_cell2_def .
next
  assume "(\<forall>j' \<in> set js1. \<not> test j') \<and> test j"
  then show "j_loop test k (js1 @ j # js2) h = h[k := 1]"
    by (intro j_loop_break) simp_all
next
  assume "\<forall>j \<in> set js. \<not> test j"
  then show "j_loop test k js h = h" by (simp add: j_loop_eq)
qed

theorem pair_test_and_early_exit_witness:
  "((6 - 7) * (6 - 7) + (5 - 5) * (5 - 5) = (1::real) \<or> (5 - 5) * (5 - 5) = (1::real)) \<and>
   \<not> pair_is_neighbor trivial 6 5 5 1 1 [1] 7 5 5 [1] \<and>
   (1::nat) < 3 - 1 \<and> sized ex_locals 3 3 \<and> (1::nat) \<le> 3 \<and> (0::nat) \<le> 3 \<and>
   pair_is_neighbor (wfunc ex_locals)
     (x1 ex_locals ! (1 + 1) - x2shift (visit (ex_dm 1) 2 0 0))
     (y1 ex_locals ! (1 + 1) - y2shift (visit (ex_dm 1) 2 0 0))
     (z1 ex_locals ! (1 + 1) - z2shift (visit (ex_dm 1) 2 0 0))
     (rp_max_squared ex_locals ! (1 + 1)) (pi_max_squared ex_locals ! (1 + 1))
     (weights1 ex_locals ! (1 + 1))
     (x2 ex_locals ! 0) (y2 ex_locals ! 0) (z2 ex_locals ! 0) (weights2 ex_locals ! 0) \<and>
   i_body ex_locals 1 3 0 2 (visit (ex_dm 1) 2 0 0) 1 [0, 0, 0] = [0, 0, 0][1 + 1 := 1] \<and>
   \<not> (0::nat) = 1 \<and> (1::nat) = 1 \<and>
   j_loop (\<lambda>j. j = 1) 2 ([0] @ 1 # [2, 3]) [0, 0, 0] = [0, 0, 0][2 := 1] \<and>
   j_loop (\<lambda>j. j = 1) 2 [0, 2, 3] [0, 0, 0] = [0, 0, 0]"
proof -
  note inst = pair_test_and_early_exit [where wfn = trivial and px = 6 and py = 5 and pz = 5
      and rp_sq = 1 and pi_sq = 1 and ?w1.0 = "[1]" and qx = 7 and qy = 5 and qz = 5
      and ?w2.0 = "[1]" and i = 1 and ?ifirst1.0 = 1 and ?ilast1.0 = 3 and ?ifirst2.0 = 0
      and ?ilast2.0 = 2 and L = ex_locals and ?n1.0 = 3 and ?n2.0 = 3
      and v = "visit (ex_dm 1) 2 0 0" and h = "[0, 0, 0]" and test = "\<lambda>j. j = 1"
      and ?js1.0 = "[0]" and j = 1 and ?js2.0 = "[2, 3]" and k = 2 and js = "[0, 2, 3]"]
  have b: "(6 - 7) * (6 - 7) + (5 - 5) * (5 - 5) = (1::real) \<or> (5 - 5) * (5 - 5) = (1::real)"
    by simp
  have s: "(1::nat) < 3 - 1 \<and> sized ex_locals 3 3 \<and> (1::nat) \<le> 3 \<and> (0::nat) \<le> 3"
    by code_simp
  have t: "pair_is_neighbor (wfunc ex_locals)
     (x1 ex_locals ! (1 + 1) - x2shift (visit (ex_dm 1) 2 0 0))
     (y1 ex_locals ! (1 + 1) - y2shift (visit (ex_dm 1) 2 0 0))
     (z1 ex_locals ! (1 + 1) - z2shift (visit (ex_dm 1) 2 0 0))
     (rp_max_squared ex_locals ! (1 + 1)) (pi_max_squared ex_locals ! (1 + 1))
     (weights1 ex_locals ! (1 + 1))
     (x2 ex_locals ! 0) (y2 ex_locals ! 0) (z2 ex_locals ! 0) (weights2 ex_locals ! 0)"
    by code_simp
  have j1: "(\<forall>j' \<in> set [0::nat]. \<not> j' = 1) \<and> (1::nat) = 1" by simp
  have j2: "\<forall>j \<in> set [0::nat, 2, 3]. \<not> j = 1" by simp
  from inst b have c1: "\<not> pair_is_neighbor trivial 6 5 5 1 1 [1] 7 5 5 [1]" by blast
  from t have "\<exists>q. 0 \<le> q \<and> q < 2 \<and> pair_is_neighbor (wfunc ex_locals)
     (x1 ex_locals ! (1 + 1) - x2shift (visit (ex_dm 1) 2 0 0))
     (y1 ex_locals ! (1 + 1) - y2shift (visit (ex_dm 1) 2 0 0))
     (z1 ex_locals ! (1 + 1) - z2shift (visit (ex_dm 1) 2 0 0))
     (rp_max_squared ex_locals ! (1 + 1)) (pi_max_squared ex_locals ! (1 + 1))
     (weights1 ex_locals ! (1 + 1))
     (x2 ex_locals ! q) (y2 ex_locals ! q) (z2 ex_locals ! q) (weights2 ex_locals ! q)"
    by (intro exI [of _ 0]) simp
  with inst s have c2: "i_body ex_locals 1 3 0 2 (visit (ex_dm 1) 2 0 0) 1 [0, 0, 0]
      = [0, 0, 0][1 + 1 := 1]"
    by simp
  from inst j1 have c3: "j_loop (\<lambda>j. j = 1) 2 ([0] @ 1 # [2, 3]) [0, 0, 0] = [0, 0, 0][2 := 1]"
    by blast
  from inst j2 have c4: "j_loop (\<lambda>j. j = 1) 2 [0, 2, 3] [0, 0, 0] = [0, 0, 0]"
    by blast
  from b c1 s t c2 c3 c4 show ?thesis by simp
qed

subsection \<open>The returned array\<close>

text \<open>
  Claim C2. For a valid invocation the engine returns an array of the length of \<open>x1in\<close>
  whose entries are 0 or 1; every original index is the image of one sorted position
  under the sort order of the primary mesh, and the entry at the original index of
  sorted position \<open>p\<close> is 1 exactly when the scan left the flag of \<open>p\<close> at 0 (no neighbor
  recorded), and 0 otherwise.
\<close>

theorem result_inverts_and_unsorts:
  assumes "valid_invocation dm x1in y1in z1in x2in y2in z2in weights1in weights2in
             weight_func_idin rp_max pi_max cell1_tuple"
  shows "\<exists>wfn res.
     return_conditional_function weight_func_idin = Inr wfn \<and>
     marked_cylindrical_isolation_engine dm x1in y1in z1in x2in y2in z2in
         weights1in weights2in weight_func_idin rp_max pi_max cell1_tuple = Inr res \<and>
     length res = length x1in \<and>
     (\<forall>k<length x1in. res ! k = 0 \<or> res ! k = 1) \<and>
     (\<forall>k<length x1in. \<exists>p<length x1in. idx_sorted (mesh1 dm) ! p = k) \<and>
     (\<forall>p<length x1in.
        idx_sorted (mesh1 dm) ! p < length x1in \<and>
        (res ! (idx_sorted (mesh1 dm) ! p) = 1 \<longleftrightarrow>
         scan_has_neighbor wfn dm x1in y1in z1in x2in y2in z2in
             weights1in weights2in rp_max pi_max cell1_tuple ! p = 0))"
proof -
  note m = valid_invocation_meshes [OF assms]
  note idx = valid_mesh_idx [OF m(1)]
  obtain wfn where wfn: "return_conditional_function weight_func_idin = Inr wfn"
    using recognised_code [OF m(5,6)] by blast
  define h where "h = scan_has_neighbor wfn dm x1in y1in z1in x2in y2in z2in
      weights1in weights2in rp_max pi_max cell1_tuple"
  define res where "res = result_assembly (idx_sorted (mesh1 dm)) h (length x1in)"
  have lh: "length h = length x1in"
    unfolding h_def by (rule scan_has_neighbor_spec(1) [OF assms])
  have eng: "marked_cylindrical_isolation_engine dm x1in y1in z1in x2in y2in z2in
      weights1in weights2in weight_func_idin rp_max pi_max cell1_tuple = Inr res"
    unfolding res_def h_def by (rule engine_result [OF wfn])
  have len: "length res = length x1in"
    unfolding res_def by (rule result_assembly_length)
  have bits: "res ! k = 0 \<or> res ! k = 1" if "k < length x1in" for k
  proof -
    have "length (idx_sorted (mesh1 dm)) = length h" using idx(1) lh by simp
    from result_assembly_nth [OF this that] show ?thesis
      unfolding res_def by (simp split: if_splits)
  qed
  have onto: "\<exists>p<length x1in. idx_sorted (mesh1 dm) ! p = k" if "k < length x1in" for k
    using that by (intro permutation_onto idx)
  have pos: "idx_sorted (mesh1 dm) ! p < length x1in \<and>
      (res ! (idx_sorted (mesh1 dm) ! p) = 1 \<longleftrightarrow> h ! p = 0)" if "p < length x1in" for p
  proof -
    have inr: "idx_sorted (mesh1 dm) ! p < length x1in"
      using that by (intro valid_mesh_idx_nth [OF m(1)])
    have "res ! (idx_sorted (mesh1 dm) ! p) = (if h ! p = 0 then 1 else 0)"
      unfolding res_def using that inr idx lh
      by (intro result_assembly_sorted_position) simp_all
    with inr show ?thesis by simp
  qed
  show ?thesis
    using wfn eng len bits onto pos unfolding h_def by blast
qed

theorem result_inverts_and_unsorts_witness:
  "ex_valid 1 0 (0, 2) \<and>
   ex_engine 1 0 (0, 2) = Inr [1, 0, 0] \<and>
   (\<exists>res. ex_engine 1 0 (0, 2) = Inr res \<and> length res = 3 \<and>
      (res ! 1 = 0 \<or> res ! 1 = 1) \<and>
      (res ! (idx_sorted (mesh1 (ex_dm 1)) ! 0) = 1) = (ex_scan trivial 1 (0, 2) ! 0 = 0))"
proof -
  have v: "ex_valid 1 0 (0, 2)" by code_simp
  have e: "ex_engine 1 0 (0, 2) = Inr [1, 0, 0]" by code_simp
  have t: "return_conditional_function 0 = Inr trivial"
    by (simp add: return_conditional_function_def)
  let ?n = "length ([6, 1, 19 / 2] :: real list)"
  from result_inverts_and_unsorts [OF v [unfolded ex_valid_def]]
  obtain wfn res where
    w: "return_conditional_function 0 = Inr wfn" and
    r: "ex_engine 1 0 (0, 2) = Inr res" and
    l: "length res = ?n" and
    b: "\<forall>k<?n. res ! k = 0 \<or> res ! k = 1" and
    p: "\<forall>p<?n. idx_sorted (mesh1 (ex_dm 1)) ! p < ?n \<and>
        (res ! (idx_sorted (mesh1 (ex_dm 1)) ! p) = 1 \<longleftrightarrow> ex_scan wfn 1 (0, 2) ! p = 0)"
    unfolding ex_engine_def ex_scan_def by blast
  from w t have "wfn = trivial" by simp
  with b p have "(res ! 1 = 0 \<or> res ! 1 = 1) \<and>
      (res ! (idx_sorted (mesh1 (ex_dm 1)) ! 0) = 1) = (ex_scan trivial 1 (0, 2) ! 0 = 0)"
    by simp
  moreover from l have "length res = 3" by simp
  ultimately show ?thesis using v e r by blast
qed

subsection \<open>The window of secondary cells around a primary cell\<close>

text \<open>
  Claim C3, as amended. For a primary cell with lattice coordinate \<open>(ix1, iy1, iz1)\<close> the raw
  secondary cell coordinates the loops visit are, on each axis, exactly those from
  \<open>leftmost = ix1 * ratio - covering_steps\<close> up to but not including
  \<open>rightmost = (ix1 + 1) * ratio + covering_steps\<close>, where \<open>ratio\<close> is the floor quotient of
  the secondary by the primary division count and \<open>covering_steps\<close> is the ceiling of the
  search length over the secondary cell size; the visited triples are the product of the
  three ranges. The loops run for a primary cell that holds a point, and for no other.
\<close>

theorem scanned_window_is_half_open:
  "(\<lambda>v. (nonPBC_ix2 v, nonPBC_iy2 v, nonPBC_iz2 v)) ` set (visited dm icell1) =
     {ix1_of dm icell1 * (num_xdivs (mesh2 dm) div num_xdivs (mesh1 dm))
          - \<lceil>search_xlength dm / xcell_size (mesh2 dm)\<rceil>
      ..< (ix1_of dm icell1 + 1) * (num_xdivs (mesh2 dm) div num_xdivs (mesh1 dm))
          + \<lceil>search_xlength dm / xcell_size (mesh2 dm)\<rceil>}
     \<times> {iy1_of dm icell1 * (num_ydivs (mesh2 dm) div num_ydivs (mesh1 dm))
          - \<lceil>search_ylength dm / ycell_size (mesh2 dm)\<rceil>
      ..< (iy1_of dm icell1 + 1) * (num_ydivs (mesh2 dm) div num_ydivs (mesh1 dm))
          + \<lceil>search_ylength dm / ycell_size (mesh2 dm)\<rceil>}
     \<times> {iz1_of dm icell1 * (num_zdivs (mesh2 dm) div num_zdivs (mesh1 dm))
          - \<lceil>search_zlength dm / zcell_size (mesh2 dm)\<rceil>
      ..< (iz1_of dm icell1 + 1) * (num_zdivs (mesh2 dm) div num_zdivs (mesh1 dm))
          + \<lceil>search_zlength dm / zcell_size (mesh2 dm)\<rceil>} \<and>
   cell1_body L dm icell1 h =
     (if cell_id_indices (mesh1 dm) ! nat icell1 < cell_id_indices (mesh1 dm) ! nat (icell1 + 1)
      then foldl (\<lambda>a v. cell_pair_scan L dm (cell_id_indices (mesh1 dm) ! nat icell1)
                          (cell_id_indices (mesh1 dm) ! nat (icell1 + 1)) v a)
             h (visited dm icell1)
      else h)"
  using visited_coordinates [of dm icell1] cell1_body_visited [of L dm icell1 h]
  unfolding leftmost_ix2_def leftmost_iy2_def leftmost_iz2_def
    rightmost_ix2_def rightmost_iy2_def rightmost_iz2_def
    num_x2_per_x1_def num_y2_per_y1_def num_z2_per_z1_def
    num_x2_covering_steps_def num_y2_covering_steps_def num_z2_covering_steps_def
  by (rule conjI)

text \<open>On the example, primary cell 0 holds a point and has \<open>ix1 = 0\<close>, ratio 1 and one
  covering step: \<open>rightmost = 2\<close>, and the loops visit the x coordinates -1, 0 and 1 only.\<close>

theorem rightmost_cell_not_scanned_counterexample:
  "cell_id_indices (mesh1 (ex_dm 1)) ! nat 0 < cell_id_indices (mesh1 (ex_dm 1)) ! nat (0 + 1) \<and>
   (ix1_of (ex_dm 1) 0 + 1) * (num_xdivs (mesh2 (ex_dm 1)) div num_xdivs (mesh1 (ex_dm 1)))
      + \<lceil>search_xlength (ex_dm 1) / xcell_size (mesh2 (ex_dm 1))\<rceil> = 2 \<and>
   map nonPBC_ix2 (visited (ex_dm 1) 0)
     = [-1, -1, -1, -1, -1, -1, -1, -1, -1, 0, 0, 0, 0, 0, 0, 0, 0, 0, 1, 1, 1, 1, 1, 1, 1, 1, 1] \<and>
   2 \<notin> set (map nonPBC_ix2 (visited (ex_dm 1) 0))"
  by code_simp

theorem scanned_window_is_half_open_witness:
  "(\<lambda>v. (nonPBC_ix2 v, nonPBC_iy2 v, nonPBC_iz2 v)) ` set (visited (ex_dm 1) 1) =
     {0..<3} \<times> {-1..<2} \<times> {-1..<2}"
proof -
  have "ix1_of (ex_dm 1) 1 = 1 \<and> iy1_of (ex_dm 1) 1 = 0 \<and> iz1_of (ex_dm 1) 1 = 0 \<and>
      num_xdivs (mesh2 (ex_dm 1)) div num_xdivs (mesh1 (ex_dm 1)) = 1 \<and>
      num_ydivs (mesh2 (ex_dm 1)) div num_ydivs (mesh1 (ex_dm 1)) = 1 \<and>
      num_zdivs (mesh2 (ex_dm 1)) div num_zdivs (mesh1 (ex_dm 1)) = 1 \<and>
      \<lceil>search_xlength (ex_dm 1) / xcell_size (mesh2 (ex_dm 1))\<rceil> = 1 \<and>
      \<lceil>search_ylength (ex_dm 1) / ycell_size (mesh2 (ex_dm 1))\<rceil> = 1 \<and>
      \<lceil>search_zlength (ex_dm 1) / zcell_size (mesh2 (ex_dm 1))\<rceil> = 1"
    by code_simp
  with scanned_window_is_half_open [of "ex_dm 1" 1] show ?thesis by simp
qed

subsection \<open>The marking functions\<close>

text \<open>
  Claim C4. For every predicate code from 0 to 6 the function the engine selects is the
  tabulated condition on the first weight components: 0 always true, 1 greater, 2 less,
  3 equal, 4 not equal, 5 greater or equal, 6 less or equal; and the test on a pair
  applies the selected function to the weight vectors of the two points, next to the
  two strict distance tests and the nonzero-distance test.
\<close>

theorem predicate_table:
  "return_conditional_function 0 = Inr trivial \<and> trivial w1 w2 = True \<and>
   return_conditional_function 1 = Inr gt_cond \<and> gt_cond w1 w2 = (w1 ! 0 > w2 ! 0) \<and>
   return_conditional_function 2 = Inr lt_cond \<and> lt_cond w1 w2 = (w1 ! 0 < w2 ! 0) \<and>
   return_conditional_function 3 = Inr eq_cond \<and> eq_cond w1 w2 = (w1 ! 0 = w2 ! 0) \<and>
   return_conditional_function 4 = Inr neq_cond \<and> neq_cond w1 w2 = (w1 ! 0 \<noteq> w2 ! 0) \<and>
   return_conditional_function 5 = Inr tg_cond \<and> tg_cond w1 w2 = (w1 ! 0 \<ge> w2 ! 0) \<and>
   return_conditional_function 6 = Inr lg_cond \<and> lg_cond w1 w2 = (w1 ! 0 \<le> w2 ! 0) \<and>
   pair_is_neighbor wfn px py pz rp_sq pi_sq w1 qx qy qz w2 =
     (wfn w1 w2 \<and> pair_is_neighbor trivial px py pz rp_sq pi_sq w1 qx qy qz w2)"
  by (simp add: return_conditional_function_def trivial_def gt_cond_def lt_cond_def
        eq_cond_def neq_cond_def tg_cond_def lg_cond_def pair_is_neighbor_def Let_def)

subsection \<open>Unknown predicate codes\<close>




text \<open>Where the exception of the selection is ignored (Cython before 3), the engine with
  predicate code 7 does not fail with the ValueError: over an empty work range it returns
  an array, and over the whole range it calls the NULL pointer at the first pair.\<close>

lemma ignored_exception_example:
  "marked_cylindrical_isolation_engine_compiled Ignored (ex_dm 1)
       [6, 1, 19 / 2] [5, 5, 5] [5, 5, 5] [3 / 10, 7, 3] [5, 5, 5] [5, 5, 5]
       [[1], [1], [1]] [[1], [1], [1]] 7 [1, 1, 1] [1, 1, 1] (1, 1)
     = Inr [1, 1, 1] \<and>
   marked_cylindrical_isolation_engine_compiled Ignored (ex_dm 1)
       [6, 1, 19 / 2] [5, 5, 5] [5, 5, 5] [3 / 10, 7, 3] [5, 5, 5] [5, 5, 5]
       [[1], [1], [1]] [[1], [1], [1]] 7 [1, 1, 1] [1, 1, 1] (0, 2)
     = Inl NullPointerCall"
  by code_simp

subsection \<open>Grid pairing\<close>

text \<open>
  Claim C6, as amended. The engine does not check that the secondary division counts are
  integer multiples of the primary ones: for an invocation that is valid in every other
  respect and whose secondary division count is not a multiple of the primary one on
  some axis, the engine raises nothing and returns an array of the length of \<open>x1in\<close>,
  computed with the floor quotients of the division counts as the per-axis ratios.
\<close>

theorem grid_pairing_is_not_checked:
  assumes v: "valid_invocation dm x1in y1in z1in x2in y2in z2in weights1in weights2in
             weight_func_idin rp_max pi_max cell1_tuple"
    and malformed: "num_xdivs (mesh2 dm) mod num_xdivs (mesh1 dm) \<noteq> 0
        \<or> num_ydivs (mesh2 dm) mod num_ydivs (mesh1 dm) \<noteq> 0
        \<or> num_zdivs (mesh2 dm) mod num_zdivs (mesh1 dm) \<noteq> 0"
  shows "\<exists>res.
     marked_cylindrical_isolation_engine dm x1in y1in z1in x2in y2in z2in
         weights1in weights2in weight_func_idin rp_max pi_max cell1_tuple = Inr res \<and>
     length res = length x1in \<and>
     num_x2_per_x1 dm = num_xdivs (mesh2 dm) div num_xdivs (mesh1 dm) \<and>
     num_y2_per_y1 dm = num_ydivs (mesh2 dm) div num_ydivs (mesh1 dm) \<and>
     num_z2_per_z1 dm = num_zdivs (mesh2 dm) div num_zdivs (mesh1 dm)"
proof -
  note m = valid_invocation_meshes [OF v]
  obtain wfn where w: "return_conditional_function weight_func_idin = Inr wfn"
    using recognised_code [OF m(5,6)] by blast
  show ?thesis
    unfolding engine_result [OF w]
    by (simp add: result_assembly_length num_x2_per_x1_def num_y2_per_y1_def
          num_z2_per_z1_def)
qed

theorem grid_pairing_is_not_checked_witness:
  "valid_invocation ex_dm_thirds
       [6, 1, 19 / 2] [5, 5, 5] [5, 5, 5] [3 / 10, 7, 3] [5, 5, 5] [5, 5, 5]
       [[1], [1], [1]] [[1], [1], [1]] 0 [1, 1, 1] [1, 1, 1] (0, 2) \<and>
   num_xdivs (mesh2 ex_dm_thirds) mod num_xdivs (mesh1 ex_dm_thirds) \<noteq> 0 \<and>
   (\<exists>res. marked_cylindrical_isolation_engine ex_dm_thirds
       [6, 1, 19 / 2] [5, 5, 5] [5, 5, 5] [3 / 10, 7, 3] [5, 5, 5] [5, 5, 5]
       [[1], [1], [1]] [[1], [1], [1]] 0 [1, 1, 1] [1, 1, 1] (0, 2) = Inr res \<and>
      length res = length ([6, 1, 19 / 2] :: real list)) \<and>
   num_x2_per_x1 ex_dm_thirds = num_xdivs (mesh2 ex_dm_thirds) div num_xdivs (mesh1 ex_dm_thirds)"
proof -
  have v: "valid_invocation ex_dm_thirds
       [6, 1, 19 / 2] [5, 5, 5] [5, 5, 5] [3 / 10, 7, 3] [5, 5, 5] [5, 5, 5]
       [[1], [1], [1]] [[1], [1], [1]] 0 [1, 1, 1] [1, 1, 1] (0, 2)"
    by code_simp
  have n: "num_xdivs (mesh2 ex_dm_thirds) mod num_xdivs (mesh1 ex_dm_thirds) \<noteq> 0"
    by code_simp
  from grid_pairing_is_not_checked [OF v disjI1 [OF n]] v n show ?thesis by blast
qed

text \<open>On this example the secondary mesh has three cells along x and the primary mesh
  two; the engine returns an array. (With the ratio 3 div 2 = 1 the window of the second
  primary cell stops short of the wrapped cell, and the point at x = 9.5 is returned as
  isolated although the secondary point at x = 0.3 is within its radius across the
  periodic boundary.)\<close>

theorem malformed_grid_pairing_counterexample:
  "num_xdivs (mesh1 ex_dm_thirds) = 2 \<and> num_xdivs (mesh2 ex_dm_thirds) = 3 \<and>
   num_xdivs (mesh2 ex_dm_thirds) mod num_xdivs (mesh1 ex_dm_thirds) = 1 \<and>
   marked_cylindrical_isolation_engine ex_dm_thirds
       [6, 1, 19 / 2] [5, 5, 5] [5, 5, 5] [3 / 10, 7, 3] [5, 5, 5] [5, 5, 5]
       [[1], [1], [1]] [[1], [1], [1]] 0 [1, 1, 1] [1, 1, 1] (0, 2) = Inr [1, 0, 1]"
  by code_simp

subsection \<open>Periodic shifts and the wrapped lookup\<close>

text \<open>
  Claim C7. For every secondary cell the loops visit, the shift on each axis is minus the
  period when the raw coordinate is negative, plus the period when it is at least the
  division count, and zero otherwise, each times the periodicity flag, so that a flag
  of 0 makes every shift zero; the cell looked up in the offset table of the secondary
  mesh has the flattened index \<open>ix * (ydivs * zdivs) + iy * zdivs + iz\<close> of the raw
  coordinates reduced modulo the division counts; the body of the loops runs once per
  visit. The distance computation uses that shift by subtracting it from the coordinates
  of the primary point: for a primary point of the cell, the scanner sets its flag
  exactly when some point of the looked-up secondary cell passes the test on the
  differences \<open>x1 - x2shift - x2\<close>, which is the test on the unshifted primary point
  against the secondary point with the shift added. Over a valid invocation, the scan
  flags sorted position \<open>p\<close> exactly when, for some primary cell of the work range that
  holds \<open>p\<close>, some visit of its window and some point of the secondary cell looked up at
  that visit, the test passes with the shift of the visit subtracted from the point at \<open>p\<close>.
\<close>

theorem periodic_shift_and_wrapped_lookup:
  "(v \<in> set (visited dm icell1) \<longrightarrow>
      x2shift v = (if nonPBC_ix2 v < 0 then - xperiod dm * of_int (PBCs dm)
                   else if nonPBC_ix2 v \<ge> num_xdivs (mesh2 dm) then xperiod dm * of_int (PBCs dm)
                   else 0) \<and>
      y2shift v = (if nonPBC_iy2 v < 0 then - yperiod dm * of_int (PBCs dm)
                   else if nonPBC_iy2 v \<ge> num_ydivs (mesh2 dm) then yperiod dm * of_int (PBCs dm)
                   else 0) \<and>
      z2shift v = (if nonPBC_iz2 v < 0 then - zperiod dm * of_int (PBCs dm)
                   else if nonPBC_iz2 v \<ge> num_zdivs (mesh2 dm) then zperiod dm * of_int (PBCs dm)
                   else 0) \<and>
      icell2 v = (nonPBC_ix2 v mod num_xdivs (mesh2 dm))
                   * (num_ydivs (mesh2 dm) * num_zdivs (mesh2 dm))
                 + (nonPBC_iy2 v mod num_ydivs (mesh2 dm)) * num_zdivs (mesh2 dm)
                 + nonPBC_iz2 v mod num_zdivs (mesh2 dm) \<and>
      (PBCs dm = 0 \<longrightarrow> x2shift v = 0 \<and> y2shift v = 0 \<and> z2shift v = 0)) \<and>
   cell2_loops dm icell1 body s0 = foldl (\<lambda>s v. body v s) s0 (visited dm icell1) \<and>
   cell_pair_scan L dm ifirst1 ilast1 v h =
     (if cell_id_indices (mesh2 dm) ! nat (icell2 v)
           < cell_id_indices (mesh2 dm) ! nat (icell2 v + 1)
      then foldl (\<lambda>a i. i_body L ifirst1 ilast1
                          (cell_id_indices (mesh2 dm) ! nat (icell2 v))
                          (cell_id_indices (mesh2 dm) ! nat (icell2 v + 1)) v i a)
             h [0..<ilast1 - ifirst1]
      else h) \<and>
   pair_is_neighbor wfn (px - sx) (py - sy) (pz - sz) rp_sq pi_sq w1 qx qy qz w2
     = pair_is_neighbor wfn px py pz rp_sq pi_sq w1 (qx + sx) (qy + sy) (qz + sz) w2 \<and>
   (i < ilast1 - ifirst1 \<and> sized L n1 n2 \<and> ifirst1 \<le> n1 \<and> ifirst2 \<le> n2 \<longrightarrow>
      i_body L ifirst1 ilast1 ifirst2 ilast2 v i h =
        (if \<exists>q. ifirst2 \<le> q \<and> q < ilast2 \<and>
               (x1 L ! (ifirst1 + i) - x2shift v - x2 L ! q)
                 * (x1 L ! (ifirst1 + i) - x2shift v - x2 L ! q)
               + (y1 L ! (ifirst1 + i) - y2shift v - y2 L ! q)
                 * (y1 L ! (ifirst1 + i) - y2shift v - y2 L ! q)
                 < rp_max_squared L ! (ifirst1 + i) \<and>
               (z1 L ! (ifirst1 + i) - z2shift v - z2 L ! q)
                 * (z1 L ! (ifirst1 + i) - z2shift v - z2 L ! q)
                 < pi_max_squared L ! (ifirst1 + i) \<and>
               wfunc L (weights1 L ! (ifirst1 + i)) (weights2 L ! q) \<and>
               (z1 L ! (ifirst1 + i) - z2shift v - z2 L ! q)
                 * (z1 L ! (ifirst1 + i) - z2shift v - z2 L ! q)
               + ((x1 L ! (ifirst1 + i) - x2shift v - x2 L ! q)
                    * (x1 L ! (ifirst1 + i) - x2shift v - x2 L ! q)
                  + (y1 L ! (ifirst1 + i) - y2shift v - y2 L ! q)
                    * (y1 L ! (ifirst1 + i) - y2shift v - y2 L ! q)) > 0
         then h[ifirst1 + i := 1] else h) \<and>
      i_body L ifirst1 ilast1 ifirst2 ilast2 v i h =
        (if \<exists>q. ifirst2 \<le> q \<and> q < ilast2 \<and>
               pair_is_neighbor (wfunc L)
                 (x1 L ! (ifirst1 + i)) (y1 L ! (ifirst1 + i)) (z1 L ! (ifirst1 + i))
                 (rp_max_squared L ! (ifirst1 + i)) (pi_max_squared L ! (ifirst1 + i))
                 (weights1 L ! (ifirst1 + i))
                 (x2 L ! q + x2shift v) (y2 L ! q + y2shift v) (z2 L ! q + z2shift v)
                 (weights2 L ! q)
         then h[ifirst1 + i := 1] else h)) \<and>
   (valid_invocation dm x1in y1in z1in x2in y2in z2in weights1in weights2in
        weight_func_idin rp_max pi_max cell1_tuple \<and> p < length x1in \<longrightarrow>
      (scan_has_neighbor wfn dm x1in y1in z1in x2in y2in z2in weights1in weights2in
           rp_max pi_max cell1_tuple ! p = 1 \<longleftrightarrow>
       (\<exists>c u q.
          fst cell1_tuple \<le> c \<and> c < snd cell1_tuple \<and>
          cell_id_indices (mesh1 dm) ! nat c \<le> p \<and>
          p < cell_id_indices (mesh1 dm) ! nat (c + 1) \<and>
          u \<in> set (visited dm c) \<and>
          cell_id_indices (mesh2 dm) ! nat (icell2 u) \<le> q \<and>
          q < cell_id_indices (mesh2 dm) ! nat (icell2 u + 1) \<and>
          pair_is_neighbor wfn
            (fancy x1in (idx_sorted (mesh1 dm)) ! p - x2shift u)
            (fancy y1in (idx_sorted (mesh1 dm)) ! p - y2shift u)
            (fancy z1in (idx_sorted (mesh1 dm)) ! p - z2shift u)
            (fancy (map (\<lambda>r. r * r) rp_max) (idx_sorted (mesh1 dm)) ! p)
            (fancy (map (\<lambda>r. r * r) pi_max) (idx_sorted (mesh1 dm)) ! p)
            (fancy weights1in (idx_sorted (mesh1 dm)) ! p)
            (fancy x2in (idx_sorted (mesh2 dm)) ! q)
            (fancy y2in (idx_sorted (mesh2 dm)) ! q)
            (fancy z2in (idx_sorted (mesh2 dm)) ! q)
            (fancy weights2in (idx_sorted (mesh2 dm)) ! q))))"

proof (intro conjI impI)
  assume "v \<in> set (visited dm icell1)"
  then obtain nx ny nz where v: "v = visit dm nx ny nz"
    unfolding visited_iff by blast
  show "x2shift v = (if nonPBC_ix2 v < 0 then - xperiod dm * of_int (PBCs dm)
                   else if nonPBC_ix2 v \<ge> num_xdivs (mesh2 dm) then xperiod dm * of_int (PBCs dm)
                   else 0)"
    unfolding v by (simp add: visit_def axis_shift_def)
  show "y2shift v = (if nonPBC_iy2 v < 0 then - yperiod dm * of_int (PBCs dm)
                   else if nonPBC_iy2 v \<ge> num_ydivs (mesh2 dm) then yperiod dm * of_int (PBCs dm)
                   else 0)"
    unfolding v by (simp add: visit_def axis_shift_def)
  show "z2shift v = (if nonPBC_iz2 v < 0 then - zperiod dm * of_int (PBCs dm)
                   else if nonPBC_iz2 v \<ge> num_zdivs (mesh2 dm) then zperiod dm * of_int (PBCs dm)
                   else 0)"
    unfolding v by (simp add: visit_def axis_shift_def)
  show "icell2 v = (nonPBC_ix2 v mod num_xdivs (mesh2 dm))
                   * (num_ydivs (mesh2 dm) * num_zdivs (mesh2 dm))
                 + (nonPBC_iy2 v mod num_ydivs (mesh2 dm)) * num_zdivs (mesh2 dm)
                 + nonPBC_iz2 v mod num_zdivs (mesh2 dm)"
    unfolding v by (simp add: visit_def)
  assume "PBCs dm = 0"
  then show "x2shift v = 0" "y2shift v = 0" "z2shift v = 0"
    unfolding v by (rule visit_no_PBCs)+
next
  show "cell2_loops dm icell1 body s0 = foldl (\<lambda>s v. body v s) s0 (visited dm icell1)"
    by (rule cell2_loops_visited)
next
  show "cell_pair_scan L dm ifirst1 ilast1 v h =
     (if cell_id_indices (mesh2 dm) ! nat (icell2 v)
           < cell_id_indices (mesh2 dm) ! nat (icell2 v + 1)
      then foldl (\<lambda>a i. i_body L ifirst1 ilast1
                          (cell_id_indices (mesh2 dm) ! nat (icell2 v))
                          (cell_id_indices (mesh2 dm) ! nat (icell2 v + 1)) v i a)
             h [0..<ilast1 - ifirst1]
      else h)"
    by (rule cell_pair_scan_lookup)
next
  show "pair_is_neighbor wfn (px - sx) (py - sy) (pz - sz) rp_sq pi_sq w1 qx qy qz w2
     = pair_is_neighbor wfn px py pz rp_sq pi_sq w1 (qx + sx) (qy + sy) (qz + sz) w2"
    by (rule shift_to_secondary)
next
  assume a: "i < ilast1 - ifirst1 \<and> sized L n1 n2 \<and> ifirst1 \<le> n1 \<and> ifirst2 \<le> n2"
  then show "i_body L ifirst1 ilast1 ifirst2 ilast2 v i h =
        (if \<exists>q. ifirst2 \<le> q \<and> q < ilast2 \<and>
               (x1 L ! (ifirst1 + i) - x2shift v - x2 L ! q)
                 * (x1 L ! (ifirst1 + i) - x2shift v - x2 L ! q)
               + (y1 L ! (ifirst1 + i) - y2shift v - y2 L ! q)
                 * (y1 L ! (ifirst1 + i) - y2shift v - y2 L ! q)
                 < rp_max_squared L ! (ifirst1 + i) \<and>
               (z1 L ! (ifirst1 + i) - z2shift v - z2 L ! q)
                 * (z1 L ! (ifirst1 + i) - z2shift v - z2 L ! q)
                 < pi_max_squared L ! (ifirst1 + i) \<and>
               wfunc L (weights1 L ! (ifirst1 + i)) (weights2 L ! q) \<and>
               (z1 L ! (ifirst1 + i) - z2shift v - z2 L ! q)
                 * (z1 L ! (ifirst1 + i) - z2shift v - z2 L ! q)
               + ((x1 L ! (ifirst1 + i) - x2shift v - x2 L ! q)
                    * (x1 L ! (ifirst1 + i) - x2shift v - x2 L ! q)
                  + (y1 L ! (ifirst1 + i) - y2shift v - y2 L ! q)
                    * (y1 L ! (ifirst1 + i) - y2shift v - y2 L ! q)) > 0
         then h[ifirst1 + i := 1] else h)"
    by (intro i_body_shift_subtracted [where ?n1.0 = n1 and ?n2.0 = n2]) simp_all
  from a show "i_body L ifirst1 ilast1 ifirst2 ilast2 v i h =
        (if \<exists>q. ifirst2 \<le> q \<and> q < ilast2 \<and>
               pair_is_neighbor (wfunc L)
                 (x1 L ! (ifirst1 + i)) (y1 L ! (ifirst1 + i)) (z1 L ! (ifirst1 + i))
                 (rp_max_squared L ! (ifirst1 + i)) (pi_max_squared L ! (ifirst1 + i))
                 (weights1 L ! (ifirst1 + i))
                 (x2 L ! q + x2shift v) (y2 L ! q + y2shift v) (z2 L ! q + z2shift v)
                 (weights2 L ! q)
         then h[ifirst1 + i := 1] else h)"
    by (intro i_body_shift_added [where ?n1.0 = n1 and ?n2.0 = n2]) simp_all
next
  assume "valid_invocation dm x1in y1in z1in x2in y2in z2in weights1in weights2in
        weight_func_idin rp_max pi_max cell1_tuple \<and> p < length x1in"
  then have va: "valid_invocation dm x1in y1in z1in x2in y2in z2in weights1in weights2in
        weight_func_idin rp_max pi_max cell1_tuple" and pl: "p < length x1in"
    by simp_all
  show "scan_has_neighbor wfn dm x1in y1in z1in x2in y2in z2in weights1in weights2in
           rp_max pi_max cell1_tuple ! p = 1 \<longleftrightarrow>
       (\<exists>c u q.
          fst cell1_tuple \<le> c \<and> c < snd cell1_tuple \<and>
          cell_id_indices (mesh1 dm) ! nat c \<le> p \<and>
          p < cell_id_indices (mesh1 dm) ! nat (c + 1) \<and>
          u \<in> set (visited dm c) \<and>
          cell_id_indices (mesh2 dm) ! nat (icell2 u) \<le> q \<and>
          q < cell_id_indices (mesh2 dm) ! nat (icell2 u + 1) \<and>
          pair_is_neighbor wfn
            (fancy x1in (idx_sorted (mesh1 dm)) ! p - x2shift u)
            (fancy y1in (idx_sorted (mesh1 dm)) ! p - y2shift u)
            (fancy z1in (idx_sorted (mesh1 dm)) ! p - z2shift u)
            (fancy (map (\<lambda>r. r * r) rp_max) (idx_sorted (mesh1 dm)) ! p)
            (fancy (map (\<lambda>r. r * r) pi_max) (idx_sorted (mesh1 dm)) ! p)
            (fancy weights1in (idx_sorted (mesh1 dm)) ! p)
            (fancy x2in (idx_sorted (mesh2 dm)) ! q)
            (fancy y2in (idx_sorted (mesh2 dm)) ! q)
            (fancy z2in (idx_sorted (mesh2 dm)) ! q)
            (fancy weights2in (idx_sorted (mesh2 dm)) ! q))"
    by (rule scan_flag_iff [OF va pl])
qed

theorem periodic_shift_and_wrapped_lookup_witness:
  "visit (ex_dm 1) 2 (-1) 0 \<in> set (visited (ex_dm 1) 1) \<and>
   nonPBC_ix2 (visit (ex_dm 1) 2 (-1) 0) = 2 \<and> num_xdivs (mesh2 (ex_dm 1)) = 2 \<and>
   x2shift (visit (ex_dm 1) 2 (-1) 0) = 10 \<and>
   nonPBC_iy2 (visit (ex_dm 1) 2 (-1) 0) = -1 \<and>
   y2shift (visit (ex_dm 1) 2 (-1) 0) = -10 \<and>
   z2shift (visit (ex_dm 1) 2 (-1) 0) = 0 \<and>
   icell2 (visit (ex_dm 1) 2 (-1) 0) = 0 \<and>
   visit (ex_dm 0) 2 (-1) 0 \<in> set (visited (ex_dm 0) 1) \<and> PBCs (ex_dm 0) = 0 \<and>
   x2shift (visit (ex_dm 0) 2 (-1) 0) = 0 \<and> y2shift (visit (ex_dm 0) 2 (-1) 0) = 0 \<and>
   z2shift (visit (ex_dm 0) 2 (-1) 0) = 0 \<and>
   (1::nat) < 3 - 1 \<and> sized ex_locals 3 3 \<and> (1::nat) \<le> 3 \<and> (0::nat) \<le> 3 \<and>
   x1 ex_locals ! (1 + 1) = 19 / 2 \<and> x2shift (visit (ex_dm 1) 2 0 0) = 10 \<and>
   x2 ex_locals ! 0 = 3 / 10 \<and>
   i_body ex_locals 1 3 0 2 (visit (ex_dm 1) 2 0 0) 1 [0, 0, 0] = [0, 0, 0][1 + 1 := 1] \<and>
   ex_valid 1 0 (0, 2) \<and> 2 < length ([6, 1, 19 / 2] :: real list) \<and>
   ex_scan trivial 1 (0, 2) ! 2 = 1 \<and>
   ex_valid 0 0 (0, 2) \<and> ex_scan trivial 0 (0, 2) ! 2 = 0"
proof -
  have range1: "leftmost_ix2 (ex_dm 1) 1 = 0 \<and> rightmost_ix2 (ex_dm 1) 1 = 3 \<and>
      leftmost_iy2 (ex_dm 1) 1 = -1 \<and> rightmost_iy2 (ex_dm 1) 1 = 2 \<and>
      leftmost_iz2 (ex_dm 1) 1 = -1 \<and> rightmost_iz2 (ex_dm 1) 1 = 2"
    by code_simp
  have range0: "leftmost_ix2 (ex_dm 0) 1 = 0 \<and> rightmost_ix2 (ex_dm 0) 1 = 3 \<and>
      leftmost_iy2 (ex_dm 0) 1 = -1 \<and> rightmost_iy2 (ex_dm 0) 1 = 2 \<and>
      leftmost_iz2 (ex_dm 0) 1 = -1 \<and> rightmost_iz2 (ex_dm 0) 1 = 2"
    by code_simp
  have m1: "visit (ex_dm 1) 2 (-1) 0 \<in> set (visited (ex_dm 1) 1)"
    unfolding visited_iff using range1
    by (intro exI [of _ 2] exI [of _ "-1"] exI [of _ 0]) simp
  have m0: "visit (ex_dm 0) 2 (-1) 0 \<in> set (visited (ex_dm 0) 1)"
    unfolding visited_iff using range0
    by (intro exI [of _ 2] exI [of _ "-1"] exI [of _ 0]) simp
  have c: "nonPBC_ix2 (visit (ex_dm 1) 2 (-1) 0) = 2 \<and> num_xdivs (mesh2 (ex_dm 1)) = 2 \<and>
      nonPBC_iy2 (visit (ex_dm 1) 2 (-1) 0) = -1 \<and> nonPBC_iz2 (visit (ex_dm 1) 2 (-1) 0) = 0 \<and>
      num_ydivs (mesh2 (ex_dm 1)) = 1 \<and> num_zdivs (mesh2 (ex_dm 1)) = 1 \<and>
      xperiod (ex_dm 1) = 10 \<and> yperiod (ex_dm 1) = 10 \<and> zperiod (ex_dm 1) = 10 \<and>
      PBCs (ex_dm 1) = 1 \<and> PBCs (ex_dm 0) = 0"
    by (simp add: visit_def ex_dm_def ex_mesh2_def)
  note on = periodic_shift_and_wrapped_lookup [where v = "visit (ex_dm 1) 2 (-1) 0"
      and dm = "ex_dm 1" and ?icell1.0 = 1, THEN conjunct1, rule_format, OF m1]
  note off = periodic_shift_and_wrapped_lookup [where v = "visit (ex_dm 0) 2 (-1) 0"
      and dm = "ex_dm 0" and ?icell1.0 = 1, THEN conjunct1, rule_format, OF m0]
  from on c have s1: "x2shift (visit (ex_dm 1) 2 (-1) 0) = 10 \<and>
      y2shift (visit (ex_dm 1) 2 (-1) 0) = -10 \<and> z2shift (visit (ex_dm 1) 2 (-1) 0) = 0 \<and>
      icell2 (visit (ex_dm 1) 2 (-1) 0) = 0"
    by simp
  from off c have s0: "x2shift (visit (ex_dm 0) 2 (-1) 0) = 0 \<and>
      y2shift (visit (ex_dm 0) 2 (-1) 0) = 0 \<and> z2shift (visit (ex_dm 0) 2 (-1) 0) = 0"
    by simp
  have sz: "(1::nat) < 3 - 1 \<and> sized ex_locals 3 3 \<and> (1::nat) \<le> 3 \<and> (0::nat) \<le> 3"
    by code_simp
  have vals: "x1 ex_locals ! (1 + 1) = 19 / 2 \<and> x2shift (visit (ex_dm 1) 2 0 0) = 10 \<and>
      x2 ex_locals ! 0 = 3 / 10"
    by code_simp
  have near: "\<exists>q. 0 \<le> q \<and> q < 2 \<and>
      (x1 ex_locals ! (1 + 1) - x2shift (visit (ex_dm 1) 2 0 0) - x2 ex_locals ! q)
        * (x1 ex_locals ! (1 + 1) - x2shift (visit (ex_dm 1) 2 0 0) - x2 ex_locals ! q)
      + (y1 ex_locals ! (1 + 1) - y2shift (visit (ex_dm 1) 2 0 0) - y2 ex_locals ! q)
        * (y1 ex_locals ! (1 + 1) - y2shift (visit (ex_dm 1) 2 0 0) - y2 ex_locals ! q)
        < rp_max_squared ex_locals ! (1 + 1) \<and>
      (z1 ex_locals ! (1 + 1) - z2shift (visit (ex_dm 1) 2 0 0) - z2 ex_locals ! q)
        * (z1 ex_locals ! (1 + 1) - z2shift (visit (ex_dm 1) 2 0 0) - z2 ex_locals ! q)
        < pi_max_squared ex_locals ! (1 + 1) \<and>
      wfunc ex_locals (weights1 ex_locals ! (1 + 1)) (weights2 ex_locals ! q) \<and>
      (z1 ex_locals ! (1 + 1) - z2shift (visit (ex_dm 1) 2 0 0) - z2 ex_locals ! q)
        * (z1 ex_locals ! (1 + 1) - z2shift (visit (ex_dm 1) 2 0 0) - z2 ex_locals ! q)
      + ((x1 ex_locals ! (1 + 1) - x2shift (visit (ex_dm 1) 2 0 0) - x2 ex_locals ! q)
           * (x1 ex_locals ! (1 + 1) - x2shift (visit (ex_dm 1) 2 0 0) - x2 ex_locals ! q)
         + (y1 ex_locals ! (1 + 1) - y2shift (visit (ex_dm 1) 2 0 0) - y2 ex_locals ! q)
           * (y1 ex_locals ! (1 + 1) - y2shift (visit (ex_dm 1) 2 0 0) - y2 ex_locals ! q)) > 0"
    by (rule exI [of _ 0]) code_simp
  note body = periodic_shift_and_wrapped_lookup [where L = ex_locals and i = 1
      and ?ifirst1.0 = 1 and ?ilast1.0 = 3 and ?ifirst2.0 = 0 and ?ilast2.0 = 2
      and ?n1.0 = 3 and ?n2.0 = 3 and v = "visit (ex_dm 1) 2 0 0" and h = "[0, 0, 0]",
      THEN conjunct2, THEN conjunct2, THEN conjunct2, THEN conjunct2, THEN conjunct1,
      rule_format, OF sz, THEN conjunct1]
  have ib: "i_body ex_locals 1 3 0 2 (visit (ex_dm 1) 2 0 0) 1 [0, 0, 0] = [0, 0, 0][1 + 1 := 1]"
    unfolding body using near by (simp only: if_True)
  have v1: "ex_valid 1 0 (0, 2)" by code_simp
  have v0: "ex_valid 0 0 (0, 2)" by code_simp
  have pl: "2 < length ([6, 1, 19 / 2] :: real list)" by simp
  have mem: "visit (ex_dm 1) 2 0 0 \<in> set (visited (ex_dm 1) 1)"
    unfolding visited_iff using range1
    by (intro exI [of _ 2] exI [of _ 0]) simp
  note scan1 = periodic_shift_and_wrapped_lookup [where dm = "ex_dm 1" and wfn = trivial
      and p = 2 and cell1_tuple = "(0, 2)", THEN conjunct2, THEN conjunct2, THEN conjunct2,
      THEN conjunct2, THEN conjunct2, rule_format, OF conjI, OF v1 [unfolded ex_valid_def] pl]
  have f1: "ex_scan trivial 1 (0, 2) ! 2 = 1"
    unfolding ex_scan_def
    apply (rule iffD2 [OF scan1])
    apply (rule exI [of _ 1], rule exI [of _ "visit (ex_dm 1) 2 0 0"], rule exI [of _ 0])
    apply (intro conjI)
    apply (rule mem | code_simp)+
    done
  have f0: "ex_scan trivial 0 (0, 2) ! 2 = 0" by code_simp
  from m1 m0 c s1 s0 sz vals ib v1 pl f1 v0 f0 show ?thesis by simp
qed



subsection \<open>Splitting the work range\<close>

text \<open>
  Claim C8. For a valid invocation over \<open>[first, last)\<close> and a split point \<open>m\<close> between
  \<open>first\<close> and \<open>last\<close>: the flags after the scan of the whole range are the elementwise
  logical OR of the flags after the scans of \<open>[first, m)\<close> and \<open>[m, last)\<close>, and the array
  the engine returns for the whole range is the elementwise logical AND of the arrays it
  returns for the two parts.
\<close>

theorem work_range_partition:
  assumes v: "valid_invocation dm x1in y1in z1in x2in y2in z2in weights1in weights2in
             weight_func_idin rp_max pi_max (first_cell, last_cell)"
    and lo: "first_cell \<le> m" and hi: "m \<le> last_cell"
  shows "\<exists>wfn r1 r2 r.
     return_conditional_function weight_func_idin = Inr wfn \<and>
     scan_has_neighbor wfn dm x1in y1in z1in x2in y2in z2in weights1in weights2in
         rp_max pi_max (first_cell, last_cell)
       = map2 (\<lambda>a b. if a \<noteq> 0 \<or> b \<noteq> 0 then 1 else 0)
           (scan_has_neighbor wfn dm x1in y1in z1in x2in y2in z2in weights1in weights2in
              rp_max pi_max (first_cell, m))
           (scan_has_neighbor wfn dm x1in y1in z1in x2in y2in z2in weights1in weights2in
              rp_max pi_max (m, last_cell)) \<and>
     marked_cylindrical_isolation_engine dm x1in y1in z1in x2in y2in z2in
         weights1in weights2in weight_func_idin rp_max pi_max (first_cell, m) = Inr r1 \<and>
     marked_cylindrical_isolation_engine dm x1in y1in z1in x2in y2in z2in
         weights1in weights2in weight_func_idin rp_max pi_max (m, last_cell) = Inr r2 \<and>
     marked_cylindrical_isolation_engine dm x1in y1in z1in x2in y2in z2in
         weights1in weights2in weight_func_idin rp_max pi_max (first_cell, last_cell) = Inr r \<and>
     r = map2 (\<lambda>a b. if a \<noteq> 0 \<and> b \<noteq> 0 then 1 else 0) r1 r2"
proof -
  note m = valid_invocation_meshes [OF v]
  have bounds: "0 \<le> first_cell" "last_cell \<le> ncells (mesh1 dm)" "0 \<le> m"
      "m \<le> ncells (mesh1 dm)"
    using m(3,4) lo hi by simp_all
  have v1: "valid_invocation dm x1in y1in z1in x2in y2in z2in weights1in weights2in
      weight_func_idin rp_max pi_max (first_cell, m)"
    using bounds by (intro valid_invocation_range [OF v])
  have v2: "valid_invocation dm x1in y1in z1in x2in y2in z2in weights1in weights2in
      weight_func_idin rp_max pi_max (m, last_cell)"
    using bounds by (intro valid_invocation_range [OF v])
  obtain wfn where w: "return_conditional_function weight_func_idin = Inr wfn"
    using recognised_code [OF m(5,6)] by blast
  let ?L = "engine_locals wfn dm x1in y1in z1in x2in y2in z2in weights1in weights2in
      rp_max pi_max"
  define S where "S = (\<lambda>a b. \<Union>c \<in> {a..<b}. cell1_marks ?L dm c)"
  define h where "h = (\<lambda>ct. scan_has_neighbor wfn dm x1in y1in z1in x2in y2in z2in
      weights1in weights2in rp_max pi_max ct)"
  define e where "e = (\<lambda>ct. result_assembly (idx_sorted (mesh1 dm)) (h ct) (length x1in))"
  have split: "S first_cell last_cell = S first_cell m \<union> S m last_cell"
  proof -
    have "{first_cell..<last_cell} = {first_cell..<m} \<union> {m..<last_cell}"
      using lo hi by auto
    then show ?thesis unfolding S_def by blast
  qed
  have len: "length (h (first_cell, last_cell)) = length x1in"
      "length (h (first_cell, m)) = length x1in" "length (h (m, last_cell)) = length x1in"
    unfolding h_def
    by (rule scan_has_neighbor_spec(1) [OF v] scan_has_neighbor_spec(1) [OF v1]
          scan_has_neighbor_spec(1) [OF v2])+
  have nth: "h (first_cell, last_cell) ! p = (if p \<in> S first_cell last_cell then 1 else 0)"
      "h (first_cell, m) ! p = (if p \<in> S first_cell m then 1 else 0)"
      "h (m, last_cell) ! p = (if p \<in> S m last_cell then 1 else 0)"
    if "p < length x1in" for p
    unfolding h_def S_def
    using scan_has_neighbor_spec(2) [OF v that, of wfn]
      scan_has_neighbor_spec(2) [OF v1 that, of wfn]
      scan_has_neighbor_spec(2) [OF v2 that, of wfn]
    by simp_all
  have flags: "h (first_cell, last_cell)
      = map2 (\<lambda>a b. if a \<noteq> 0 \<or> b \<noteq> 0 then 1 else 0) (h (first_cell, m)) (h (m, last_cell))"
  proof (rule nth_equalityI)
    show "length (h (first_cell, last_cell))
        = length (map2 (\<lambda>a b. if a \<noteq> 0 \<or> b \<noteq> 0 then 1 else 0)
            (h (first_cell, m)) (h (m, last_cell)))"
      by (simp add: len)
  next
    fix p assume "p < length (h (first_cell, last_cell))"
    then have p: "p < length x1in" by (simp add: len)
    then show "h (first_cell, last_cell) ! p
        = map2 (\<lambda>a b. if a \<noteq> 0 \<or> b \<noteq> 0 then 1 else 0)
            (h (first_cell, m)) (h (m, last_cell)) ! p"
      by (simp add: len nth [OF p] split)
  qed
  have eng: "marked_cylindrical_isolation_engine dm x1in y1in z1in x2in y2in z2in
      weights1in weights2in weight_func_idin rp_max pi_max ct = Inr (e ct)" for ct
    unfolding e_def h_def by (rule engine_result [OF w])
  have at: "e (first_cell, last_cell) ! (idx_sorted (mesh1 dm) ! p)
        = (if h (first_cell, last_cell) ! p = 0 then 1 else 0)"
      "e (first_cell, m) ! (idx_sorted (mesh1 dm) ! p)
        = (if h (first_cell, m) ! p = 0 then 1 else 0)"
      "e (m, last_cell) ! (idx_sorted (mesh1 dm) ! p)
        = (if h (m, last_cell) ! p = 0 then 1 else 0)"
    if "p < length x1in" for p
    using engine_at_sorted_position [OF v w that] engine_at_sorted_position [OF v1 w that]
      engine_at_sorted_position [OF v2 w that]
    unfolding eng h_def by simp_all
  have elen: "length (e ct) = length x1in" for ct
    unfolding e_def by (rule result_assembly_length)
  have results: "e (first_cell, last_cell)
      = map2 (\<lambda>a b. if a \<noteq> 0 \<and> b \<noteq> 0 then 1 else 0) (e (first_cell, m)) (e (m, last_cell))"
  proof (rule nth_equalityI)
    show "length (e (first_cell, last_cell))
        = length (map2 (\<lambda>a b. if a \<noteq> 0 \<and> b \<noteq> 0 then 1 else 0)
            (e (first_cell, m)) (e (m, last_cell)))"
      by (simp add: elen)
  next
    fix k assume "k < length (e (first_cell, last_cell))"
    then have k: "k < length x1in" by (simp add: elen)
    then obtain p where p: "p < length x1in" "idx_sorted (mesh1 dm) ! p = k"
      using permutation_onto [OF valid_mesh_idx [OF m(1)]] by blast
    show "e (first_cell, last_cell) ! k
        = map2 (\<lambda>a b. if a \<noteq> 0 \<and> b \<noteq> 0 then 1 else 0)
            (e (first_cell, m)) (e (m, last_cell)) ! k"
      using at [OF p(1)] k unfolding p(2) by (simp add: elen nth [OF p(1)] split)
  qed
  show ?thesis
    using w flags eng [of "(first_cell, m)"] eng [of "(m, last_cell)"]
      eng [of "(first_cell, last_cell)"] results
    unfolding h_def by blast
qed

theorem work_range_partition_witness:
  "ex_valid 1 0 (0, 2) \<and> (0::int) \<le> 1 \<and> (1::int) \<le> 2 \<and>
   ex_engine 1 0 (0, 1) = Inr [1, 0, 1] \<and>
   ex_engine 1 0 (1, 2) = Inr [1, 1, 0] \<and>
   ex_engine 1 0 (0, 2) = Inr (map2 (\<lambda>a b. if a \<noteq> 0 \<and> b \<noteq> 0 then 1 else 0) [1, 0, 1 :: real] [1, 1, 0 :: real])"
proof -
  have v: "ex_valid 1 0 (0, 2)" by code_simp
  have e1: "ex_engine 1 0 (0, 1) = Inr [1, 0, 1]" by code_simp
  have e2: "ex_engine 1 0 (1, 2) = Inr [1, 1, 0]" by code_simp
  have lo: "(0::int) \<le> 1" and hi: "(1::int) \<le> 2" by simp_all
  from work_range_partition [OF v [unfolded ex_valid_def] lo hi] e1 e2
  have "ex_engine 1 0 (0, 2)
      = Inr (map2 (\<lambda>a b. if a \<noteq> 0 \<and> b \<noteq> 0 then 1 else 0) [1, 0, 1 :: real] [1, 1, 0 :: real])"
    unfolding ex_engine_def by auto
  with v e1 e2 show ?thesis by simp
qed

subsection \<open>Periodicity switched off\<close>

text \<open>
  Claim C9. For a valid invocation with the periodicity flag at 0, every primary point the
  engine reports as having a neighbor (entry 0 at its original index \<open>k\<close>) has a secondary
  point, at some original index \<open>l\<close>, whose plain, unshifted squared distances satisfy the
  two strict distance conditions, for which the selected predicate holds, and which is
  not at distance zero.
\<close>

theorem no_spurious_match_without_periodicity:
  assumes v: "valid_invocation dm x1in y1in z1in x2in y2in z2in weights1in weights2in
             weight_func_idin rp_max pi_max cell1_tuple"
    and off: "PBCs dm = 0"
    and eng: "marked_cylindrical_isolation_engine dm x1in y1in z1in x2in y2in z2in
         weights1in weights2in weight_func_idin rp_max pi_max cell1_tuple = Inr res"
    and k: "k < length x1in"
    and flagged: "res ! k = 0"
  shows "\<exists>wfn l.
     return_conditional_function weight_func_idin = Inr wfn \<and>
     l < length x2in \<and>
     (x1in ! k - x2in ! l) * (x1in ! k - x2in ! l)
       + (y1in ! k - y2in ! l) * (y1in ! k - y2in ! l) < rp_max ! k * rp_max ! k \<and>
     (z1in ! k - z2in ! l) * (z1in ! k - z2in ! l) < pi_max ! k * pi_max ! k \<and>
     wfn (weights1in ! k) (weights2in ! l) \<and>
     (z1in ! k - z2in ! l) * (z1in ! k - z2in ! l)
       + ((x1in ! k - x2in ! l) * (x1in ! k - x2in ! l)
          + (y1in ! k - y2in ! l) * (y1in ! k - y2in ! l)) > 0"
proof -
  note m = valid_invocation_meshes [OF v]
  note ln = valid_invocation_lengths [OF v]
  note idx1 = valid_mesh_idx [OF m(1)]
  note idx2 = valid_mesh_idx [OF m(2)]
  obtain wfn where w: "return_conditional_function weight_func_idin = Inr wfn"
    using recognised_code [OF m(5,6)] by blast
  let ?L = "engine_locals wfn dm x1in y1in z1in x2in y2in z2in weights1in weights2in
      rp_max pi_max"
  let ?h = "scan_has_neighbor wfn dm x1in y1in z1in x2in y2in z2in weights1in weights2in
      rp_max pi_max cell1_tuple"
  obtain p where p: "p < length x1in" "idx_sorted (mesh1 dm) ! p = k"
    using permutation_onto [OF idx1 k] by blast
  have "res ! k = (if ?h ! p = 0 then 1 else 0)"
    using engine_at_sorted_position [OF v w p(1)] eng p(2) by auto
  with flagged have "?h ! p \<noteq> 0" by (simp split: if_splits)
  then have "p \<in> (\<Union>c \<in> {fst cell1_tuple..<snd cell1_tuple}. cell1_marks ?L dm c)"
    using scan_has_neighbor_spec(2) [OF v p(1), of wfn] by (simp split: if_splits)
  then obtain nx ny nz q where
    q: "q < cell_id_indices (mesh2 dm) ! nat (icell2 (visit dm nx ny nz) + 1)" and
    t: "pair_is_neighbor (wfunc ?L)
       (x1 ?L ! p - x2shift (visit dm nx ny nz)) (y1 ?L ! p - y2shift (visit dm nx ny nz))
       (z1 ?L ! p - z2shift (visit dm nx ny nz))
       (rp_max_squared ?L ! p) (pi_max_squared ?L ! p) (weights1 ?L ! p)
       (x2 ?L ! q) (y2 ?L ! q) (z2 ?L ! q) (weights2 ?L ! q)"
    by (rule marked_position)
  have "cell_id_indices (mesh2 dm) ! nat (icell2 (visit dm nx ny nz) + 1) \<le> length x2in"
    using icell2_visit_bounds [OF m(2), of nx ny nz]
    by (intro offset_le_npts [OF m(2)]) auto
  with q have q2: "q < length x2in" by simp
  define l where "l = idx_sorted (mesh2 dm) ! q"
  have l: "l < length x2in"
    unfolding l_def using q2 by (intro valid_mesh_idx_nth [OF m(2)])
  have prim: "x1 ?L ! p = x1in ! k" "y1 ?L ! p = y1in ! k" "z1 ?L ! p = z1in ! k"
    "weights1 ?L ! p = weights1in ! k"
    "rp_max_squared ?L ! p = rp_max ! k * rp_max ! k"
    "pi_max_squared ?L ! p = pi_max ! k * pi_max ! k"
    using p k idx1(1) ln by (simp_all add: engine_locals_def fancy_nth)
  have sec: "x2 ?L ! q = x2in ! l" "y2 ?L ! q = y2in ! l" "z2 ?L ! q = z2in ! l"
    "weights2 ?L ! q = weights2in ! l"
    using q2 idx2(1) by (simp_all add: engine_locals_def fancy_nth l_def)
  have wf: "wfunc ?L = wfn" by (simp add: engine_locals_def)
  from t have "pair_is_neighbor wfn (x1in ! k) (y1in ! k) (z1in ! k)
      (rp_max ! k * rp_max ! k) (pi_max ! k * pi_max ! k) (weights1in ! k)
      (x2in ! l) (y2in ! l) (z2in ! l) (weights2in ! l)"
    unfolding prim sec wf visit_no_PBCs [OF off] by simp
  then show ?thesis
    using w l unfolding pair_is_neighbor_def Let_def by (auto split: if_splits)
qed

theorem no_spurious_match_without_periodicity_witness:
  "ex_valid 0 0 (0, 2) \<and> PBCs (ex_dm 0) = 0 \<and> ex_engine 0 0 (0, 2) = Inr [1, 0, 1] \<and>
   1 < length ([6, 1, 19 / 2] :: real list) \<and> [1, 0, 1 :: real] ! 1 = 0 \<and>
   (\<exists>l. l < length ([3 / 10, 7, 3] :: real list) \<and>
      ([6, 1, 19 / 2] ! 1 - [3 / 10, 7, 3] ! l) * ([6, 1, 19 / 2] ! 1 - [3 / 10, 7, 3] ! l)
        + ([5, 5, 5] ! 1 - [5, 5, 5] ! l) * ([5, 5, 5] ! 1 - [5, 5, 5] ! l)
        < [1, 1, 1] ! 1 * [1, 1, 1 :: real] ! 1)"
proof -
  have v: "ex_valid 0 0 (0, 2)" by code_simp
  have o: "PBCs (ex_dm 0) = 0" by code_simp
  have e: "ex_engine 0 0 (0, 2) = Inr [1, 0, 1]" by code_simp
  have k: "1 < length ([6, 1, 19 / 2] :: real list)" by simp
  have f: "[1, 0, 1 :: real] ! 1 = 0" by simp
  from no_spurious_match_without_periodicity
    [OF v [unfolded ex_valid_def] o e [unfolded ex_engine_def] k f]
  have "\<exists>l. l < length ([3 / 10, 7, 3] :: real list) \<and>
      ([6, 1, 19 / 2] ! 1 - [3 / 10, 7, 3] ! l) * ([6, 1, 19 / 2] ! 1 - [3 / 10, 7, 3] ! l)
        + ([5, 5, 5] ! 1 - [5, 5, 5] ! l) * ([5, 5, 5] ! 1 - [5, 5, 5] ! l)
        < [1, 1, 1] ! 1 * [1, 1, 1 :: real] ! 1"
    by blast
  with v o e k f show ?thesis by blast
qed

subsection \<open>Points outside the work range\<close>

text \<open>
  Claim C10. For a valid invocation with work range \<open>[first, last)\<close>, every primary point
  whose cell (the cell \<open>c\<close> whose offsets enclose its sorted position \<open>p\<close>) lies outside the
  work range is reported as 1 at its original index; and when the work range is empty
  the engine returns all ones.
\<close>

theorem outside_work_range_isolated:
  assumes v: "valid_invocation dm x1in y1in z1in x2in y2in z2in weights1in weights2in
             weight_func_idin rp_max pi_max (first_cell, last_cell)"
  shows "\<exists>res.
     marked_cylindrical_isolation_engine dm x1in y1in z1in x2in y2in z2in
         weights1in weights2in weight_func_idin rp_max pi_max (first_cell, last_cell) = Inr res \<and>
     (\<forall>c p. 0 \<le> c \<and> c < ncells (mesh1 dm) \<and>
            cell_id_indices (mesh1 dm) ! nat c \<le> p \<and>
            p < cell_id_indices (mesh1 dm) ! nat (c + 1) \<and>
            (c < first_cell \<or> last_cell \<le> c)
          \<longrightarrow> res ! (idx_sorted (mesh1 dm) ! p) = 1) \<and>
     (last_cell \<le> first_cell \<longrightarrow> res = replicate (length x1in) 1)"
proof -
  note m = valid_invocation_meshes [OF v]
  obtain wfn where w: "return_conditional_function weight_func_idin = Inr wfn"
    using recognised_code [OF m(5,6)] by blast
  let ?L = "engine_locals wfn dm x1in y1in z1in x2in y2in z2in weights1in weights2in
      rp_max pi_max"
  let ?h = "scan_has_neighbor wfn dm x1in y1in z1in x2in y2in z2in weights1in weights2in
      rp_max pi_max (first_cell, last_cell)"
  define res where "res = result_assembly (idx_sorted (mesh1 dm)) ?h (length x1in)"
  have eng: "marked_cylindrical_isolation_engine dm x1in y1in z1in x2in y2in z2in
      weights1in weights2in weight_func_idin rp_max pi_max (first_cell, last_cell) = Inr res"
    unfolding res_def by (rule engine_result [OF w])
  have at: "res ! (idx_sorted (mesh1 dm) ! p) = (if ?h ! p = 0 then 1 else 0)"
    if "p < length x1in" for p
    using engine_at_sorted_position [OF v w that] eng by auto
  have outside: "res ! (idx_sorted (mesh1 dm) ! p) = 1"
    if c: "0 \<le> c" "c < ncells (mesh1 dm)"
      and pc: "cell_id_indices (mesh1 dm) ! nat c \<le> p"
        "p < cell_id_indices (mesh1 dm) ! nat (c + 1)"
      and out: "c < first_cell \<or> last_cell \<le> c" for c p
  proof -
    have "cell_id_indices (mesh1 dm) ! nat (c + 1) \<le> length x1in"
      using c by (intro offset_le_npts [OF m(1)]) auto
    with pc have p: "p < length x1in" by simp
    have "p \<notin> (\<Union>c' \<in> {first_cell..<last_cell}. cell1_marks ?L dm c')"
    proof
      assume "p \<in> (\<Union>c' \<in> {first_cell..<last_cell}. cell1_marks ?L dm c')"
      then obtain c' where c': "first_cell \<le> c'" "c' < last_cell"
        and pc': "cell_id_indices (mesh1 dm) ! nat c' \<le> p"
          "p < cell_id_indices (mesh1 dm) ! nat (c' + 1)"
        by (auto simp: cell1_marks_def)
      have "c = c'"
        using c c' m(3,4) pc pc' by (intro cell_of_position_unique [OF m(1)]) auto
      with c' out show False by simp
    qed
    then have "?h ! p = 0"
      using scan_has_neighbor_spec(2) [OF v p, of wfn] by simp
    with at [OF p] show ?thesis by simp
  qed
  have empty: "res = replicate (length x1in) 1" if "last_cell \<le> first_cell"
  proof (rule nth_equalityI)
    show "length res = length (replicate (length x1in) (1::real))"
      unfolding res_def by (simp add: result_assembly_length)
  next
    fix k assume "k < length res"
    then have k: "k < length x1in" unfolding res_def by (simp add: result_assembly_length)
    then obtain p where p: "p < length x1in" "idx_sorted (mesh1 dm) ! p = k"
      using permutation_onto [OF valid_mesh_idx [OF m(1)]] by blast
    have "?h = replicate (length x1in) 0"
      using that by (intro empty_range_scan) simp
    with p have "?h ! p = 0" by simp
    with at [OF p(1)] p k show "res ! k = replicate (length x1in) 1 ! k" by simp
  qed
  show ?thesis using eng outside empty by blast
qed

theorem outside_work_range_isolated_witness:
  "ex_valid 1 0 (1, 2) \<and>
   ex_engine 1 0 (1, 2) = Inr [1, 1, 0] \<and>
   (\<exists>res. ex_engine 1 0 (1, 2) = Inr res \<and> res ! (idx_sorted (mesh1 (ex_dm 1)) ! 0) = 1) \<and>
   ex_valid 1 0 (1, 1) \<and>
   ex_engine 1 0 (1, 1) = Inr [1, 1, 1]"
proof -
  have v: "ex_valid 1 0 (1, 2)" by code_simp
  have e: "ex_engine 1 0 (1, 2) = Inr [1, 1, 0]" by code_simp
  have c: "(0::int) \<le> 0 \<and> 0 < ncells (mesh1 (ex_dm 1)) \<and>
      cell_id_indices (mesh1 (ex_dm 1)) ! nat 0 \<le> 0 \<and>
      0 < cell_id_indices (mesh1 (ex_dm 1)) ! nat (0 + 1) \<and> ((0::int) < 1 \<or> (2::int) \<le> 0)"
    by code_simp
  from outside_work_range_isolated [OF v [unfolded ex_valid_def]] c
  have a: "\<exists>res. ex_engine 1 0 (1, 2) = Inr res \<and> res ! (idx_sorted (mesh1 (ex_dm 1)) ! 0) = 1"
    unfolding ex_engine_def by blast
  have v': "ex_valid 1 0 (1, 1)" by code_simp
  from outside_work_range_isolated [OF v' [unfolded ex_valid_def]]
  have "ex_engine 1 0 (1, 1) = Inr (replicate (length ([6, 1, 19 / 2] :: real list)) 1)"
    unfolding ex_engine_def by auto
  then have b: "ex_engine 1 0 (1, 1) = Inr [1, 1, 1]" by simp
  from v e a v' b show ?thesis by blast
qed

end
